theory Spec2Isabelle
  imports Main
begin

section \<open>Outcomes\<close>

text \<open>
  The source is the header \<^verbatim>\<open>vector.h\<close>: a class template \<^verbatim>\<open>RawMemory<T>\<close> that owns a raw
  block, and a class template \<^verbatim>\<open>Vector<T>\<close> built on it. An operation of the source either
  returns, or leaves by a C++ exception (\<^verbatim>\<open>std::bad_alloc\<close> from \<^verbatim>\<open>operator new\<close>, or whatever
  a constructor or an assignment of \<^verbatim>\<open>T\<close> throws), or stops the program: a failed
  \<^verbatim>\<open>assert\<close>, \<^verbatim>\<open>std::terminate\<close> when an exception leaves a \<^verbatim>\<open>noexcept\<close> function, or
  behaviour the language leaves undefined. The object an exception leaves behind is part
  of the outcome, since the caller can go on using it.
\<close>

datatype fault = AllocationError | ConstructionError

datatype abort = AssertionFailed | Terminated | Undefined

datatype ('r, 's) outcome = Done 'r | Thrown fault 's | Fatal abort

section \<open>The template parameter\<close>

text \<open>
  What the templates need to know about \<^verbatim>\<open>T\<close> and about the allocator. The two traits are
  the ones the source tests with \<^verbatim>\<open>if constexpr\<close>. A copy gives an equal value and leaves
  its source alone; a move gives the value its source had and leaves the source in the
  state \<open>moved_from\<close> (the source unchanged for a type whose move is a copy, empty for a
  string or an owning pointer). Each constructor and assignment may throw, depending on
  the value it reads. \<open>value_init\<close> is the value \<^verbatim>\<open>T()\<close> constructs, \<open>None\<close> when it
  throws. \<open>alloc_fails n\<close> says that \<^verbatim>\<open>operator new\<close> has no room for \<open>n\<close> elements,
  and \<open>sizeof_T\<close> is \<^verbatim>\<open>sizeof(T)\<close>.

  \<^verbatim>\<open>size_t\<close> has 64 bits. The length of a vector counts objects that are constructed in
  a block the allocator returned, fewer than \<open>2^63\<close> of them, so \<^verbatim>\<open>size_ * 2\<close> and
  \<^verbatim>\<open>size_ + 1\<close> do not wrap and are computed on natural numbers. A capacity is a number
  the caller may ask for, so the product \<^verbatim>\<open>Capacity() * 2\<close> of \<^verbatim>\<open>Resize\<close> is taken modulo
  \<open>2^64\<close>.
\<close>

record 'a env =
  nothrow_move_constructible :: bool
  copy_constructible :: bool
  copy_throws :: "'a \<Rightarrow> bool"
  move_throws :: "'a \<Rightarrow> bool"
  moved_from :: "'a \<Rightarrow> 'a"
  value_init :: "'a option"
  copy_assign_throws :: "'a \<Rightarrow> bool"
  move_assign_throws :: "'a \<Rightarrow> bool"
  alloc_fails :: "nat \<Rightarrow> bool"
  sizeof_T :: nat

text \<open>
  The arguments of an emplacement, \<^verbatim>\<open>T(std::forward<Args>(args)...)\<close>: the value they
  construct, or that the constructor throws. They do not refer into the vector itself.
\<close>

datatype 'a args = Constructs 'a | Throws

section \<open>RawMemory\<close>

text \<open>
  The block \<^verbatim>\<open>buffer_\<close> points to, as the list of its \<^verbatim>\<open>capacity_\<close> slots: \<open>None\<close> is raw
  memory, \<open>Some x\<close> a constructed object of value \<open>x\<close>. The null pointer of capacity 0 is
  the empty list.
\<close>

type_synonym 'a raw_memory = "'a option list"

text \<open>
  \<^verbatim>\<open>Allocate(n)\<close> asks \<^verbatim>\<open>operator new\<close> for \<^verbatim>\<open>n * sizeof(T)\<close> bytes, a product of
  \<^verbatim>\<open>size_t\<close>. \<open>fits T n\<close> says that the product does not wrap: then the block has the
  \<open>n\<close> slots that \<^verbatim>\<open>capacity_\<close> records, and \<open>Allocate\<close> below is the source's. For an
  \<open>n\<close> that does not fit, the source gets a block of the wrapped byte count, smaller than
  \<^verbatim>\<open>capacity_\<close> says (none at all for \<^verbatim>\<open>Reserve(2^62)\<close> on \<^verbatim>\<open>int\<close>); a list of
  \<^verbatim>\<open>capacity_\<close> slots cannot say that, and every statement below about the number of slots
  an operation allocates assumes \<open>fits\<close>.
\<close>

definition fits :: "'a env \<Rightarrow> nat \<Rightarrow> bool" where
  "fits T n = (0 < sizeof_T T \<and> n * sizeof_T T < 2 ^ 64)"

definition Allocate :: "'a env \<Rightarrow> nat \<Rightarrow> 'a raw_memory option" where
  "Allocate T n = (if n \<noteq> 0 \<and> alloc_fails T n then None else Some (replicate n None))"

text \<open>
  Placement new at \<^verbatim>\<open>buf + offset\<close>, where \<^verbatim>\<open>RawMemory::operator+\<close> asserts
  \<^verbatim>\<open>offset <= capacity_\<close>; the address one past the block may be taken, not written.
\<close>

definition emplace_at :: "'a raw_memory \<Rightarrow> nat \<Rightarrow> 'a args \<Rightarrow> ('a raw_memory, unit) outcome" where
  "emplace_at buf offset a =
     (if length buf < offset then Fatal AssertionFailed
      else if offset = length buf then Fatal Undefined
      else case a of
             Throws \<Rightarrow> Thrown ConstructionError ()
           | Constructs x \<Rightarrow> Done (buf[offset := Some x]))"

section \<open>The algorithms of the standard library the source calls\<close>

text \<open>\<^verbatim>\<open>std::destroy_n(buf + first, n)\<close>; destroying what was never constructed is undefined.\<close>

fun destroy_n :: "'a raw_memory \<Rightarrow> nat \<Rightarrow> nat \<Rightarrow> 'a raw_memory option" where
  "destroy_n buf first 0 = Some buf"
| "destroy_n buf first (Suc n) =
     (if first < length buf \<and> buf ! first \<noteq> None
      then destroy_n (buf[first := None]) (Suc first) n
      else None)"

text \<open>
  \<^verbatim>\<open>std::uninitialized_copy_n(src + first, count, dst + d_first)\<close>: copy-constructs one
  element after the other; when a copy throws, the elements constructed so far (from
  \<open>d_first\<close> up to \<open>current\<close>) are destroyed and the exception goes on. The source block is
  read only; it is returned beside the destination so that copying and moving have one
  shape.
\<close>

fun uninitialized_copy_from ::
  "'a env \<Rightarrow> 'a raw_memory \<Rightarrow> nat \<Rightarrow> nat \<Rightarrow> 'a raw_memory \<Rightarrow> nat \<Rightarrow> nat
     \<Rightarrow> ('a raw_memory \<times> 'a raw_memory, 'a raw_memory \<times> 'a raw_memory) outcome" where
  "uninitialized_copy_from T src first 0 dst d_first current = Done (src, dst)"
| "uninitialized_copy_from T src first (Suc count) dst d_first current =
     (if first < length src \<and> current < length dst then
        (case src ! first of
           None \<Rightarrow> Fatal Undefined
         | Some x \<Rightarrow>
             if copy_throws T x then
               (case destroy_n dst d_first (current - d_first) of
                  None \<Rightarrow> Fatal Undefined
                | Some cleaned \<Rightarrow> Thrown ConstructionError (src, cleaned))
             else uninitialized_copy_from T src (Suc first) count
                    (dst[current := Some x]) d_first (Suc current))
      else Fatal Undefined)"

definition uninitialized_copy_n ::
  "'a env \<Rightarrow> 'a raw_memory \<Rightarrow> nat \<Rightarrow> nat \<Rightarrow> 'a raw_memory \<Rightarrow> nat
     \<Rightarrow> ('a raw_memory \<times> 'a raw_memory, 'a raw_memory \<times> 'a raw_memory) outcome" where
  "uninitialized_copy_n T src first count dst d_first =
     uninitialized_copy_from T src first count dst d_first d_first"

text \<open>
  \<^verbatim>\<open>std::uninitialized_move_n\<close>: the same loop with the move constructor. Every element
  moved so far is left in its moved-from state, also when a later move throws.
\<close>

fun uninitialized_move_from ::
  "'a env \<Rightarrow> 'a raw_memory \<Rightarrow> nat \<Rightarrow> nat \<Rightarrow> 'a raw_memory \<Rightarrow> nat \<Rightarrow> nat
     \<Rightarrow> ('a raw_memory \<times> 'a raw_memory, 'a raw_memory \<times> 'a raw_memory) outcome" where
  "uninitialized_move_from T src first 0 dst d_first current = Done (src, dst)"
| "uninitialized_move_from T src first (Suc count) dst d_first current =
     (if first < length src \<and> current < length dst then
        (case src ! first of
           None \<Rightarrow> Fatal Undefined
         | Some x \<Rightarrow>
             if move_throws T x then
               (case destroy_n dst d_first (current - d_first) of
                  None \<Rightarrow> Fatal Undefined
                | Some cleaned \<Rightarrow> Thrown ConstructionError (src, cleaned))
             else uninitialized_move_from T (src[first := Some (moved_from T x)]) (Suc first) count
                    (dst[current := Some x]) d_first (Suc current))
      else Fatal Undefined)"

definition uninitialized_move_n ::
  "'a env \<Rightarrow> 'a raw_memory \<Rightarrow> nat \<Rightarrow> nat \<Rightarrow> 'a raw_memory \<Rightarrow> nat
     \<Rightarrow> ('a raw_memory \<times> 'a raw_memory, 'a raw_memory \<times> 'a raw_memory) outcome" where
  "uninitialized_move_n T src first count dst d_first =
     uninitialized_move_from T src first count dst d_first d_first"

text \<open>\<^verbatim>\<open>std::uninitialized_value_construct_n(buf + first, count)\<close>.\<close>

fun uninitialized_value_construct_from ::
  "'a env \<Rightarrow> 'a raw_memory \<Rightarrow> nat \<Rightarrow> nat \<Rightarrow> nat \<Rightarrow> ('a raw_memory, 'a raw_memory) outcome" where
  "uninitialized_value_construct_from T buf first current 0 = Done buf"
| "uninitialized_value_construct_from T buf first current (Suc count) =
     (if current < length buf then
        (case value_init T of
           None \<Rightarrow>
             (case destroy_n buf first (current - first) of
                None \<Rightarrow> Fatal Undefined
              | Some cleaned \<Rightarrow> Thrown ConstructionError cleaned)
         | Some x \<Rightarrow>
             uninitialized_value_construct_from T (buf[current := Some x]) first (Suc current) count)
      else Fatal Undefined)"

definition uninitialized_value_construct_n ::
  "'a env \<Rightarrow> 'a raw_memory \<Rightarrow> nat \<Rightarrow> nat \<Rightarrow> ('a raw_memory, 'a raw_memory) outcome" where
  "uninitialized_value_construct_n T buf first count =
     uninitialized_value_construct_from T buf first first count"

text \<open>
  \<^verbatim>\<open>std::copy(src + first, src + first + count, dst + d_first)\<close>: copy assignment, element
  by element, onto constructed objects.
\<close>

fun copy_from ::
  "'a env \<Rightarrow> 'a raw_memory \<Rightarrow> nat \<Rightarrow> nat \<Rightarrow> 'a raw_memory \<Rightarrow> nat
     \<Rightarrow> ('a raw_memory, 'a raw_memory) outcome" where
  "copy_from T src first 0 dst d_first = Done dst"
| "copy_from T src first (Suc count) dst d_first =
     (if first < length src \<and> d_first < length dst then
        (case (src ! first, dst ! d_first) of
           (Some x, Some y) \<Rightarrow>
             if copy_assign_throws T x then Thrown ConstructionError dst
             else copy_from T src (Suc first) count (dst[d_first := Some x]) (Suc d_first)
         | _ \<Rightarrow> Fatal Undefined)
      else Fatal Undefined)"

text \<open>
  \<^verbatim>\<open>std::move(buf + first, buf + last, buf + d_first)\<close> inside one block: move assignment
  from the front. A range whose end lies before its start is not a range.
\<close>

fun move_from ::
  "'a env \<Rightarrow> 'a raw_memory \<Rightarrow> nat \<Rightarrow> nat \<Rightarrow> nat \<Rightarrow> ('a raw_memory, 'a raw_memory) outcome" where
  "move_from T buf first 0 d_first = Done buf"
| "move_from T buf first (Suc count) d_first =
     (if first < length buf \<and> d_first < length buf then
        (case (buf ! first, buf ! d_first) of
           (Some x, Some y) \<Rightarrow>
             if move_assign_throws T x then Thrown ConstructionError buf
             else move_from T (buf[d_first := Some x, first := Some (moved_from T x)])
                    (Suc first) count (Suc d_first)
         | _ \<Rightarrow> Fatal Undefined)
      else Fatal Undefined)"

definition std_move ::
  "'a env \<Rightarrow> 'a raw_memory \<Rightarrow> nat \<Rightarrow> nat \<Rightarrow> nat \<Rightarrow> ('a raw_memory, 'a raw_memory) outcome" where
  "std_move T buf first last' d_first =
     (if last' < first then Fatal Undefined else move_from T buf first (last' - first) d_first)"

text \<open>
  \<^verbatim>\<open>std::move_backward(buf + first, buf + last, buf + d_last)\<close>: move assignment from the
  back, \<^verbatim>\<open>*(--d_last) = std::move(*(--last))\<close>; \<open>count\<close> is \<open>last - first\<close>.
\<close>

fun move_backward_from ::
  "'a env \<Rightarrow> 'a raw_memory \<Rightarrow> nat \<Rightarrow> nat \<Rightarrow> nat \<Rightarrow> ('a raw_memory, 'a raw_memory) outcome" where
  "move_backward_from T buf first 0 d_last = Done buf"
| "move_backward_from T buf first (Suc count) d_last =
     (if 0 < d_last \<and> first + count < length buf \<and> d_last - 1 < length buf then
        (case (buf ! (first + count), buf ! (d_last - 1)) of
           (Some x, Some y) \<Rightarrow>
             if move_assign_throws T x then Thrown ConstructionError buf
             else move_backward_from T
                    (buf[d_last - 1 := Some x, first + count := Some (moved_from T x)])
                    first count (d_last - 1)
         | _ \<Rightarrow> Fatal Undefined)
      else Fatal Undefined)"

definition move_backward ::
  "'a env \<Rightarrow> 'a raw_memory \<Rightarrow> nat \<Rightarrow> nat \<Rightarrow> nat \<Rightarrow> ('a raw_memory, 'a raw_memory) outcome" where
  "move_backward T buf first last' d_last =
     (if last' < first then Fatal Undefined
      else move_backward_from T buf first (last' - first) d_last)"

section \<open>Vector\<close>

text \<open>
  The two members of \<^verbatim>\<open>Vector<T>\<close>: \<open>data'\<close> is \<^verbatim>\<open>data_\<close>, \<open>size'\<close> is \<^verbatim>\<open>size_\<close> (a name
  cannot end in an underscore here).
\<close>

record 'a Vector =
  data' :: "'a raw_memory"
  size' :: nat

definition Size :: "'a Vector \<Rightarrow> nat" where
  "Size v = size' v"

definition Capacity :: "'a Vector \<Rightarrow> nat" where
  "Capacity v = length (data' v)"

text \<open>\<^verbatim>\<open>Vector() = default\<close>.\<close>

definition Vector_default :: "'a Vector" where
  "Vector_default = \<lparr>data' = [], size' = 0\<rparr>"

text \<open>
  \<^verbatim>\<open>explicit Vector(size_t size)\<close>. A constructor that throws leaves no object behind, and
  the block is released by the destructor of \<^verbatim>\<open>data_\<close>.
\<close>

definition Vector_sized :: "'a env \<Rightarrow> nat \<Rightarrow> ('a Vector, unit) outcome" where
  "Vector_sized T n =
     (case Allocate T n of
        None \<Rightarrow> Thrown AllocationError ()
      | Some buf \<Rightarrow>
          (case uninitialized_value_construct_n T buf 0 n of
             Fatal a \<Rightarrow> Fatal a
           | Thrown f _ \<Rightarrow> Thrown f ()
           | Done buf' \<Rightarrow> Done \<lparr>data' = buf', size' = n\<rparr>))"

text \<open>\<^verbatim>\<open>Vector(const Vector& other)\<close>.\<close>

definition Vector_copy :: "'a env \<Rightarrow> 'a Vector \<Rightarrow> ('a Vector, unit) outcome" where
  "Vector_copy T other =
     (case Allocate T (size' other) of
        None \<Rightarrow> Thrown AllocationError ()
      | Some buf \<Rightarrow>
          (case uninitialized_copy_n T (data' other) 0 (size' other) buf 0 of
             Fatal a \<Rightarrow> Fatal a
           | Thrown f _ \<Rightarrow> Thrown f ()
           | Done (_, buf') \<Rightarrow> Done \<lparr>data' = buf', size' = size' other\<rparr>))"

text \<open>
  \<^verbatim>\<open>Swap(Vector& other)\<close>, which swaps the blocks (\<^verbatim>\<open>RawMemory::Swap\<close>) and the sizes: the
  pair of this vector and the other one, afterwards.
\<close>

definition Swap :: "'a Vector \<Rightarrow> 'a Vector \<Rightarrow> 'a Vector \<times> 'a Vector" where
  "Swap this other =
     (\<lparr>data' = data' other, size' = size' other\<rparr>, \<lparr>data' = data' this, size' = size' this\<rparr>)"

text \<open>\<^verbatim>\<open>Vector(Vector&& other) noexcept\<close>: a default-initialised vector swapped with the other.\<close>

definition Vector_move :: "'a Vector \<Rightarrow> 'a Vector \<times> 'a Vector" where
  "Vector_move other = Swap Vector_default other"

text \<open>
  \<^verbatim>\<open>operator[]\<close> of the vector, with its assertion and that of \<^verbatim>\<open>RawMemory::operator[]\<close>
  behind it.
\<close>

definition At :: "'a Vector \<Rightarrow> nat \<Rightarrow> ('a, unit) outcome" where
  "At v index =
     (if \<not> index < size' v then Fatal AssertionFailed
      else if \<not> index < Capacity v then Fatal AssertionFailed
      else case data' v ! index of None \<Rightarrow> Fatal Undefined | Some x \<Rightarrow> Done x)"

text \<open>\<^verbatim>\<open>Reserve(size_t new_capacity)\<close>.\<close>

definition Reserve :: "'a env \<Rightarrow> 'a Vector \<Rightarrow> nat \<Rightarrow> ('a Vector, 'a Vector) outcome" where
  "Reserve T v new_capacity =
     (if new_capacity \<le> Capacity v then Done v
      else case Allocate T new_capacity of
        None \<Rightarrow> Thrown AllocationError v
      | Some new_data \<Rightarrow>
          (case (if nothrow_move_constructible T \<or> \<not> copy_constructible T
                 then uninitialized_move_n T (data' v) 0 (size' v) new_data 0
                 else uninitialized_copy_n T (data' v) 0 (size' v) new_data 0) of
             Fatal a \<Rightarrow> Fatal a
           | Thrown f (old, _) \<Rightarrow> Thrown f (v\<lparr>data' := old\<rparr>)
           | Done (old, new_data') \<Rightarrow>
               (case destroy_n old 0 (size' v) of
                  None \<Rightarrow> Fatal Undefined
                | Some _ \<Rightarrow> Done (v\<lparr>data' := new_data'\<rparr>))))"

text \<open>
  \<^verbatim>\<open>Resize(size_t new_size)\<close>, with \<^verbatim>\<open>std::max(new_size, Capacity() * 2)\<close> as \<^verbatim>\<open>size_t\<close>
  computes it.
\<close>

definition Resize :: "'a env \<Rightarrow> 'a Vector \<Rightarrow> nat \<Rightarrow> ('a Vector, 'a Vector) outcome" where
  "Resize T v new_size =
     (if new_size < size' v then
        (case destroy_n (data' v) new_size (size' v - new_size) of
           None \<Rightarrow> Fatal Undefined
         | Some buf \<Rightarrow> Done \<lparr>data' = buf, size' = new_size\<rparr>)
      else
        (case (if new_size > Capacity v
               then Reserve T v (max new_size ((Capacity v * 2) mod 2 ^ 64))
               else Done v) of
           Fatal a \<Rightarrow> Fatal a
         | Thrown f v' \<Rightarrow> Thrown f v'
         | Done v' \<Rightarrow>
             (case uninitialized_value_construct_n T (data' v') (size' v') (new_size - size' v') of
                Fatal a \<Rightarrow> Fatal a
              | Thrown f buf \<Rightarrow> Thrown f (v'\<lparr>data' := buf\<rparr>)
              | Done buf \<Rightarrow> Done \<lparr>data' = buf, size' = new_size\<rparr>)))"

text \<open>
  \<^verbatim>\<open>EmplaceBack(Args&&... args)\<close>, the append. The new element is constructed in the new
  block before the old ones are transferred; \<^verbatim>\<open>PushBack\<close> is this function.
\<close>

definition EmplaceBack :: "'a env \<Rightarrow> 'a Vector \<Rightarrow> 'a args \<Rightarrow> ('a Vector, 'a Vector) outcome" where
  "EmplaceBack T v a =
     (if size' v = Capacity v then
        (case Allocate T (if size' v = 0 then 1 else size' v * 2) of
           None \<Rightarrow> Thrown AllocationError v
         | Some new_data \<Rightarrow>
             (case emplace_at new_data (size' v) a of
                Fatal x \<Rightarrow> Fatal x
              | Thrown f _ \<Rightarrow> Thrown f v
              | Done new_data1 \<Rightarrow>
                  (case (if nothrow_move_constructible T \<or> \<not> copy_constructible T
                         then uninitialized_move_n T (data' v) 0 (size' v) new_data1 0
                         else uninitialized_copy_n T (data' v) 0 (size' v) new_data1 0) of
                     Fatal x \<Rightarrow> Fatal x
                   | Thrown f (old, _) \<Rightarrow> Thrown f (v\<lparr>data' := old\<rparr>)
                   | Done (old, new_data2) \<Rightarrow>
                       (case destroy_n old 0 (size' v) of
                          None \<Rightarrow> Fatal Undefined
                        | Some _ \<Rightarrow> Done \<lparr>data' = new_data2, size' = size' v + 1\<rparr>))))
      else
        (case emplace_at (data' v) (size' v) a of
           Fatal x \<Rightarrow> Fatal x
         | Thrown f _ \<Rightarrow> Thrown f v
         | Done buf \<Rightarrow> Done \<lparr>data' = buf, size' = size' v + 1\<rparr>))"

definition PushBack :: "'a env \<Rightarrow> 'a Vector \<Rightarrow> 'a args \<Rightarrow> ('a Vector, 'a Vector) outcome" where
  "PushBack T v value = EmplaceBack T v value"

text \<open>\<^verbatim>\<open>PopBack() noexcept\<close>.\<close>

definition PopBack :: "'a Vector \<Rightarrow> ('a Vector, 'a Vector) outcome" where
  "PopBack v =
     (if size' v > 0 then
        (case destroy_n (data' v) (size' v - 1) 1 of
           None \<Rightarrow> Fatal Undefined
         | Some buf \<Rightarrow> Done \<lparr>data' = buf, size' = size' v - 1\<rparr>)
      else Done v)"

text \<open>
  \<^verbatim>\<open>EmplaceWithReallocate(size_t shift, Args&&... args)\<close>. On the copying path the source
  catches what a copy throws, destroys the element it had constructed at \<open>shift\<close> and
  throws again; the new block is released either way.
\<close>

definition EmplaceWithReallocate ::
  "'a env \<Rightarrow> 'a Vector \<Rightarrow> nat \<Rightarrow> 'a args \<Rightarrow> ('a Vector, 'a Vector) outcome" where
  "EmplaceWithReallocate T v shift a =
     (case Allocate T (if size' v = 0 then 1 else size' v * 2) of
        None \<Rightarrow> Thrown AllocationError v
      | Some new_data \<Rightarrow>
          (case emplace_at new_data shift a of
             Fatal x \<Rightarrow> Fatal x
           | Thrown f _ \<Rightarrow> Thrown f v
           | Done new_data1 \<Rightarrow>
               (case (if nothrow_move_constructible T \<or> \<not> copy_constructible T then
                        (case uninitialized_move_n T (data' v) 0 shift new_data1 0 of
                           Fatal x \<Rightarrow> Fatal x
                         | Thrown f r \<Rightarrow> Thrown f r
                         | Done (old1, new_data2) \<Rightarrow>
                             uninitialized_move_n T old1 shift (size' v - shift) new_data2 (shift + 1))
                      else
                        (case (case uninitialized_copy_n T (data' v) 0 shift new_data1 0 of
                                 Fatal x \<Rightarrow> Fatal x
                               | Thrown f r \<Rightarrow> Thrown f r
                               | Done (old1, new_data2) \<Rightarrow>
                                   uninitialized_copy_n T old1 shift (size' v - shift)
                                     new_data2 (shift + 1)) of
                           Fatal x \<Rightarrow> Fatal x
                         | Thrown f (old, partial) \<Rightarrow>
                             (case destroy_n partial shift 1 of
                                None \<Rightarrow> Fatal Undefined
                              | Some partial' \<Rightarrow> Thrown f (old, partial'))
                         | Done r \<Rightarrow> Done r)) of
                  Fatal x \<Rightarrow> Fatal x
                | Thrown f (old, _) \<Rightarrow> Thrown f (v\<lparr>data' := old\<rparr>)
                | Done (old, new_data3) \<Rightarrow>
                    (case destroy_n old 0 (size' v) of
                       None \<Rightarrow> Fatal Undefined
                     | Some _ \<Rightarrow> Done (v\<lparr>data' := new_data3\<rparr>)))))"

text \<open>
  \<^verbatim>\<open>new (data_ + size_) T(std::move(*(data_.GetAddress() + size_ - 1)))\<close>: the move
  construction that opens \<^verbatim>\<open>EmplaceWithoutReallocate\<close>, into slot \<open>target\<close> from slot
  \<open>target - 1\<close>.
\<close>

definition move_construct_last :: "'a env \<Rightarrow> 'a raw_memory \<Rightarrow> nat \<Rightarrow> ('a raw_memory, 'a raw_memory) outcome" where
  "move_construct_last T buf target =
     (if length buf < target then Fatal AssertionFailed
      else if target = length buf \<or> target = 0 then Fatal Undefined
      else case buf ! (target - 1) of
             None \<Rightarrow> Fatal Undefined
           | Some x \<Rightarrow>
               if move_throws T x then Thrown ConstructionError buf
               else Done (buf[target := Some x, target - 1 := Some (moved_from T x)]))"

text \<open>
  \<^verbatim>\<open>EmplaceWithoutReallocate(size_t shift, Args&&... args)\<close>. The range handed to
  \<^verbatim>\<open>std::move_backward\<close> is \<^verbatim>\<open>[begin() + shift, data_ + size_)\<close> with the destination ending
  at \<^verbatim>\<open>data_ + size_ + 1\<close>, as the source has it.
\<close>

definition EmplaceWithoutReallocate ::
  "'a env \<Rightarrow> 'a Vector \<Rightarrow> nat \<Rightarrow> 'a args \<Rightarrow> ('a Vector, 'a Vector) outcome" where
  "EmplaceWithoutReallocate T v shift a =
     (case (if size' v \<noteq> 0 then
              (case move_construct_last T (data' v) (size' v) of
                 Fatal x \<Rightarrow> Fatal x
               | Thrown f buf \<Rightarrow> Thrown f buf
               | Done buf1 \<Rightarrow>
                   (case move_backward T buf1 shift (size' v) (size' v + 1) of
                      Fatal x \<Rightarrow> Fatal x
                    | Thrown f buf2 \<Rightarrow>
                        (case destroy_n buf2 (size' v) 1 of
                           None \<Rightarrow> Fatal Undefined
                         | Some buf3 \<Rightarrow> Thrown f buf3)
                    | Done buf2 \<Rightarrow>
                        (case destroy_n buf2 shift 1 of
                           None \<Rightarrow> Fatal Undefined
                         | Some buf3 \<Rightarrow> Done buf3)))
            else Done (data' v)) of
        Fatal x \<Rightarrow> Fatal x
      | Thrown f buf \<Rightarrow> Thrown f (v\<lparr>data' := buf\<rparr>)
      | Done buf \<Rightarrow>
          (case emplace_at buf shift a of
             Fatal x \<Rightarrow> Fatal x
           | Thrown f _ \<Rightarrow> Thrown f (v\<lparr>data' := buf\<rparr>)
           | Done buf' \<Rightarrow> Done (v\<lparr>data' := buf'\<rparr>)))"

text \<open>
  \<^verbatim>\<open>Emplace(const_iterator pos, Args&&... args)\<close>. A position is the offset of the iterator
  from \<^verbatim>\<open>begin()\<close>, an integer: the caller can hand in any pointer. \<^verbatim>\<open>Insert\<close> is this
  function.
\<close>

definition Emplace :: "'a env \<Rightarrow> 'a Vector \<Rightarrow> int \<Rightarrow> 'a args \<Rightarrow> ('a Vector, 'a Vector) outcome" where
  "Emplace T v pos a =
     (if \<not> (0 \<le> pos \<and> pos \<le> int (size' v)) then Fatal AssertionFailed
      else
        (case (if size' v = Capacity v
               then EmplaceWithReallocate T v (nat pos) a
               else EmplaceWithoutReallocate T v (nat pos) a) of
           Fatal x \<Rightarrow> Fatal x
         | Thrown f v' \<Rightarrow> Thrown f v'
         | Done v' \<Rightarrow> Done (v'\<lparr>size' := size' v' + 1\<rparr>)))"

definition Insert :: "'a env \<Rightarrow> 'a Vector \<Rightarrow> int \<Rightarrow> 'a args \<Rightarrow> ('a Vector, 'a Vector) outcome" where
  "Insert T v pos value = Emplace T v pos value"

text \<open>
  \<^verbatim>\<open>Erase(const_iterator pos) noexcept\<close>: the guard is the source's, \<^verbatim>\<open>pos <= end()\<close>
  included; an exception of a move assignment cannot leave the function.
\<close>

definition Erase :: "'a env \<Rightarrow> 'a Vector \<Rightarrow> int \<Rightarrow> ('a Vector, 'a Vector) outcome" where
  "Erase T v pos =
     (if 0 \<le> pos \<and> pos \<le> int (size' v) then
        (case std_move T (data' v) (nat pos + 1) (size' v) (nat pos) of
           Fatal x \<Rightarrow> Fatal x
         | Thrown f _ \<Rightarrow> Fatal Terminated
         | Done buf \<Rightarrow> PopBack (v\<lparr>data' := buf\<rparr>))
      else Done v)"

section \<open>Assignment, where two vectors may be one\<close>

text \<open>
  Both assignment operators compare \<^verbatim>\<open>this\<close> with the address of the right-hand side, so
  the vectors live in a store, addressed by numbers.
\<close>

type_synonym 'a store = "nat \<Rightarrow> 'a Vector"

text \<open>\<^verbatim>\<open>Swap\<close> on two objects of the store.\<close>

definition Swap_at :: "'a store \<Rightarrow> nat \<Rightarrow> nat \<Rightarrow> 'a store" where
  "Swap_at s this other =
     (case Swap (s this) (s other) of (this', other') \<Rightarrow> s(other := other', this := this'))"

text \<open>
  The body of \<^verbatim>\<open>operator=(const Vector& rhs) noexcept\<close> for two distinct vectors. The
  operator is \<^verbatim>\<open>noexcept\<close>: what the copy constructor, \<^verbatim>\<open>std::copy\<close> or
  \<^verbatim>\<open>std::uninitialized_copy_n\<close> throws ends the program.
\<close>

definition assign_distinct :: "'a env \<Rightarrow> 'a Vector \<Rightarrow> 'a Vector \<Rightarrow> ('a Vector, unit) outcome" where
  "assign_distinct T this rhs =
     (if Capacity this < size' rhs then
        (case Vector_copy T rhs of
           Fatal x \<Rightarrow> Fatal x
         | Thrown f _ \<Rightarrow> Fatal Terminated
         | Done rhs_copy \<Rightarrow> Done (fst (Swap this rhs_copy)))
      else
        (case copy_from T (data' rhs) 0 (min (size' rhs) (size' this)) (data' this) 0 of
           Fatal x \<Rightarrow> Fatal x
         | Thrown f _ \<Rightarrow> Fatal Terminated
         | Done buf \<Rightarrow>
             if size' rhs < size' this then
               (case destroy_n buf (size' rhs) (size' this - size' rhs) of
                  None \<Rightarrow> Fatal Undefined
                | Some buf' \<Rightarrow> Done \<lparr>data' = buf', size' = size' rhs\<rparr>)
             else
               (case uninitialized_copy_n T (data' rhs) (size' this) (size' rhs - size' this)
                       buf (size' this) of
                  Fatal x \<Rightarrow> Fatal x
                | Thrown f _ \<Rightarrow> Fatal Terminated
                | Done (_, buf') \<Rightarrow> Done \<lparr>data' = buf', size' = size' rhs\<rparr>)))"

text \<open>\<^verbatim>\<open>operator=(const Vector& rhs) noexcept\<close>.\<close>

definition assign_copy :: "'a env \<Rightarrow> 'a store \<Rightarrow> nat \<Rightarrow> nat \<Rightarrow> ('a store, unit) outcome" where
  "assign_copy T s this rhs =
     (if this \<noteq> rhs then
        (case assign_distinct T (s this) (s rhs) of
           Fatal x \<Rightarrow> Fatal x
         | Thrown f u \<Rightarrow> Thrown f u
         | Done v \<Rightarrow> Done (s(this := v)))
      else Done s)"

text \<open>\<^verbatim>\<open>operator=(Vector&& rhs) noexcept\<close>.\<close>

definition assign_move :: "'a store \<Rightarrow> nat \<Rightarrow> nat \<Rightarrow> 'a store" where
  "assign_move s this rhs = (if this \<noteq> rhs then Swap_at s this rhs else s)"

section \<open>What the proofs speak about\<close>

text \<open>
  A vector in good state is \<open>vec xs k\<close>: its elements \<open>xs\<close> constructed in the first
  slots, and \<open>k\<close> raw slots behind them. \<open>vec_inv\<close> is the class invariant of the source
  (the size is at most the capacity, the slots below the size are constructed, those from
  the size on are raw), \<open>elems\<close> reads the element values of a vector.
\<close>

definition vec :: "'a list \<Rightarrow> nat \<Rightarrow> 'a Vector" where
  "vec xs k = \<lparr>data' = map Some xs @ replicate k None, size' = length xs\<rparr>"

definition vec_inv :: "'a Vector \<Rightarrow> bool" where
  "vec_inv v =
     (size' v \<le> Capacity v \<and> list_all (\<lambda>s. s \<noteq> None) (take (size' v) (data' v))
        \<and> list_all (\<lambda>s. s = None) (drop (size' v) (data' v)))"

definition elems :: "'a Vector \<Rightarrow> 'a list" where
  "elems v = map the (take (size' v) (data' v))"

text \<open>
  The old elements after a transfer by move construction that stops at the first move
  that throws: the ones before it are moved from, the rest untouched.
\<close>

fun moved_prefix :: "'a env \<Rightarrow> 'a list \<Rightarrow> 'a list" where
  "moved_prefix T [] = []"
| "moved_prefix T (y # ys) =
     (if move_throws T y then y # ys else moved_from T y # moved_prefix T ys)"

text \<open>
  Three element types for the examples: one like \<^verbatim>\<open>int\<close> (nothing throws, a move is a
  copy); one like \<^verbatim>\<open>std::string\<close> (nothing throws, a moved-from string is empty); and a
  move-only type whose move constructor throws on the value 2 and leaves 0 behind.
\<close>

definition int_like :: "nat env" where
  "int_like = \<lparr>nothrow_move_constructible = True, copy_constructible = True,
     copy_throws = (\<lambda>_. False), move_throws = (\<lambda>_. False), moved_from = (\<lambda>x. x),
     value_init = Some 0, copy_assign_throws = (\<lambda>_. False), move_assign_throws = (\<lambda>_. False),
     alloc_fails = (\<lambda>_. False), sizeof_T = 4\<rparr>"

definition string_like :: "string env" where
  "string_like = \<lparr>nothrow_move_constructible = True, copy_constructible = True,
     copy_throws = (\<lambda>_. False), move_throws = (\<lambda>_. False), moved_from = (\<lambda>_. []),
     value_init = Some [], copy_assign_throws = (\<lambda>_. False), move_assign_throws = (\<lambda>_. False),
     alloc_fails = (\<lambda>_. False), sizeof_T = 32\<rparr>"

definition move_only :: "nat env" where
  "move_only = \<lparr>nothrow_move_constructible = False, copy_constructible = False,
     copy_throws = (\<lambda>_. False), move_throws = (\<lambda>x. x = 2), moved_from = (\<lambda>_. 0),
     value_init = Some 0, copy_assign_throws = (\<lambda>_. False), move_assign_throws = (\<lambda>_. False),
     alloc_fails = (\<lambda>_. False), sizeof_T = 8\<rparr>"

text \<open>
  The two ways of transferring the elements \<open>xs\<close> of the old block, as the specification
  words them. Moving: when a move throws, the old elements stay behind, partly moved
  from (\<open>Inl\<close>); otherwise all of them arrive (\<open>Inr\<close>). Copying: when a copy throws,
  the old elements stay behind as they were.
\<close>

definition transfer_by_move :: "'a env \<Rightarrow> 'a list \<Rightarrow> 'a list + 'a list" where
  "transfer_by_move T xs =
     (if \<exists>x\<in>set xs. move_throws T x then Inl (moved_prefix T xs) else Inr xs)"

definition transfer_by_copy :: "'a env \<Rightarrow> 'a list \<Rightarrow> 'a list + 'a list" where
  "transfer_by_copy T xs = (if \<exists>x\<in>set xs. copy_throws T x then Inl xs else Inr xs)"

text \<open>The capacity an append or an insertion allocates when the block is full.\<close>

definition grown :: "'a Vector \<Rightarrow> nat" where
  "grown v = (if size' v = 0 then 1 else size' v * 2)"

text \<open>
  A copyable element type whose copy constructor and move assignment throw on the value
  2, with an allocator that has no room for 8 elements or more.
\<close>

definition fragile :: "nat env" where
  "fragile = \<lparr>nothrow_move_constructible = False, copy_constructible = True,
     copy_throws = (\<lambda>x. x = 2), move_throws = (\<lambda>_. False), moved_from = (\<lambda>_. 0),
     value_init = None, copy_assign_throws = (\<lambda>_. False), move_assign_throws = (\<lambda>x. x = 2),
     alloc_fails = (\<lambda>n. 8 \<le> n), sizeof_T = 4\<rparr>"

text \<open>A store of two vectors, \<open>[1, 2]\<close> with one spare slot at address 0 and \<open>[5]\<close> at address 1.\<close>

definition two_vectors :: "nat store" where
  "two_vectors = (\<lambda>_. Vector_default)(0 := vec [1, 2] 1, 1 := vec [5] 0)"

section \<open>The standard algorithms on segments of a block\<close>

lemma length_moved_prefix [simp]: "length (moved_prefix T ys) = length ys"
  by (induction ys) auto

lemma moved_prefix_no_throw:
  "\<forall>y\<in>set ys. \<not> move_throws T y \<Longrightarrow> moved_prefix T ys = map (moved_from T) ys"
  by (induction ys) auto

lemma destroy_n_segment:
  "destroy_n (pre @ map Some ys @ post) (length pre) (length ys)
     = Some (pre @ replicate (length ys) None @ post)"
proof (induction ys arbitrary: pre)
  case Nil
  then show ?case by simp
next
  case (Cons y ys)
  have "destroy_n ((pre @ [None]) @ map Some ys @ post) (length (pre @ [None])) (length ys)
          = Some ((pre @ [None]) @ replicate (length ys) None @ post)"
    by (rule Cons.IH)
  then show ?case
    by (simp add: replicate_app_Cons_same)
qed

lemma uninitialized_copy_from_segment:
  assumes "length mid = length ys"
  shows "uninitialized_copy_from T (spre @ map Some ys @ spost) (length spre) (length ys)
           (A @ map Some zs @ mid @ dpost) (length A) (length A + length zs)
         = (if \<exists>y\<in>set ys. copy_throws T y
            then Thrown ConstructionError (spre @ map Some ys @ spost,
                   A @ replicate (length zs + length (takeWhile (\<lambda>y. \<not> copy_throws T y) ys)) None
                     @ drop (length (takeWhile (\<lambda>y. \<not> copy_throws T y) ys)) mid @ dpost)
            else Done (spre @ map Some ys @ spost, A @ map Some (zs @ ys) @ dpost))"
  using assms
proof (induction ys arbitrary: spre zs mid)
  case Nil
  then show ?case by simp
next
  case (Cons y ys)
  then obtain m mid' where mid: "mid = m # mid'" "length mid' = length ys"
    by (cases mid) auto
  show ?case
  proof (cases "copy_throws T y")
    case True
    have "destroy_n (A @ map Some zs @ mid @ dpost) (length A) (length zs)
            = Some (A @ replicate (length zs) None @ mid @ dpost)"
      by (rule destroy_n_segment)
    with True mid show ?thesis by (simp add: nth_append)
  next
    case False
    from Cons.IH [OF mid(2), of "spre @ [Some y]" "zs @ [y]"] False mid show ?thesis
      by (simp add: nth_append list_update_append)
  qed
qed


lemma uninitialized_move_from_segment:
  assumes "length mid = length ys"
  shows "uninitialized_move_from T (spre @ map Some ys @ spost) (length spre) (length ys)
           (A @ map Some zs @ mid @ dpost) (length A) (length A + length zs)
         = (if \<exists>y\<in>set ys. move_throws T y
            then Thrown ConstructionError (spre @ map Some (moved_prefix T ys) @ spost,
                   A @ replicate (length zs + length (takeWhile (\<lambda>y. \<not> move_throws T y) ys)) None
                     @ drop (length (takeWhile (\<lambda>y. \<not> move_throws T y) ys)) mid @ dpost)
            else Done (spre @ map Some (moved_prefix T ys) @ spost, A @ map Some (zs @ ys) @ dpost))"
  using assms
proof (induction ys arbitrary: spre zs mid)
  case Nil
  then show ?case by simp
next
  case (Cons y ys)
  then obtain m mid' where mid: "mid = m # mid'" "length mid' = length ys"
    by (cases mid) auto
  show ?case
  proof (cases "move_throws T y")
    case True
    have "destroy_n (A @ map Some zs @ mid @ dpost) (length A) (length zs)
            = Some (A @ replicate (length zs) None @ mid @ dpost)"
      by (rule destroy_n_segment)
    with True mid show ?thesis by (simp add: nth_append)
  next
    case False
    from Cons.IH [OF mid(2), of "spre @ [Some (moved_from T y)]" "zs @ [y]"] False mid
    show ?thesis
      by (simp add: nth_append list_update_append)
  qed
qed

lemma uninitialized_value_construct_from_segment:
  assumes "length mid = count"
  shows "uninitialized_value_construct_from T (A @ map Some zs @ mid @ post) (length A)
           (length A + length zs) count
         = (case value_init T of
              Some x \<Rightarrow> Done (A @ map Some zs @ replicate count (Some x) @ post)
            | None \<Rightarrow>
                if count = 0 then Done (A @ map Some zs @ mid @ post)
                else Thrown ConstructionError (A @ replicate (length zs) None @ mid @ post))"
  using assms
proof (induction count arbitrary: zs mid)
  case 0
  then show ?case by (simp split: option.splits)
next
  case (Suc count)
  then obtain m mid' where mid: "mid = m # mid'" "length mid' = count"
    by (cases mid) auto
  show ?case
  proof (cases "value_init T")
    case None
    have "destroy_n (A @ map Some zs @ mid @ post) (length A) (length zs)
            = Some (A @ replicate (length zs) None @ mid @ post)"
      by (rule destroy_n_segment)
    with None mid show ?thesis by simp
  next
    case (Some x)
    from Suc.IH [OF mid(2), of "zs @ [x]"] Some mid show ?thesis
      by (simp add: list_update_append replicate_app_Cons_same)
  qed
qed

lemma copy_from_segment:
  assumes "length ds = length ys" and "\<forall>y\<in>set ys. \<not> copy_assign_throws T y"
  shows "copy_from T (spre @ map Some ys @ spost) (length spre) (length ys)
           (dpre @ map Some ds @ dpost) (length dpre)
         = Done (dpre @ map Some ys @ dpost)"
  using assms
proof (induction ys arbitrary: spre dpre ds)
  case Nil
  then show ?case by simp
next
  case (Cons y ys)
  then obtain d ds' where ds: "ds = d # ds'" "length ds' = length ys"
    by (cases ds) auto
  from Cons.prems have no: "\<forall>y\<in>set ys. \<not> copy_assign_throws T y" and y: "\<not> copy_assign_throws T y"
    by simp_all
  from Cons.IH [OF ds(2) no, of "spre @ [Some y]" "dpre @ [Some y]"] y ds show ?case
    by (simp add: nth_append list_update_append)
qed

lemma move_from_segment:
  assumes "\<forall>y\<in>set ys. \<not> move_assign_throws T y"
  shows "move_from T (pre @ Some d # map Some ys @ post) (Suc (length pre)) (length ys) (length pre)
         = Done (pre @ map Some ys @ Some (if ys = [] then d else moved_from T (last ys)) # post)"
  using assms
proof (induction ys arbitrary: pre d)
  case Nil
  then show ?case by simp
next
  case (Cons y ys)
  from Cons.prems have no: "\<forall>y\<in>set ys. \<not> move_assign_throws T y" and y: "\<not> move_assign_throws T y"
    by simp_all
  from Cons.IH [OF no, of "pre @ [Some y]" "moved_from T y"] y show ?case
    by (simp add: nth_append list_update_append)
qed

lemma move_backward_from_segment:
  assumes "\<forall>y\<in>set ys. \<not> move_assign_throws T y"
  shows "move_backward_from T (pre @ map Some ys @ Some d # post) (length pre) (length ys)
           (Suc (length pre + length ys))
         = Done (pre @ Some (if ys = [] then d else moved_from T (hd ys)) # map Some ys @ post)"
  using assms
proof (induction ys arbitrary: d post rule: rev_induct)
  case Nil
  then show ?case by simp
next
  case (snoc y ys)
  from snoc.prems have no: "\<forall>y\<in>set ys. \<not> move_assign_throws T y" and y: "\<not> move_assign_throws T y"
    by simp_all
  from snoc.IH [OF no, of "moved_from T y" "Some y # post"] y show ?case
    by (simp add: nth_append list_update_append hd_append)
qed

lemma all_None_replicate: "list_all (\<lambda>s. s = None) xs \<Longrightarrow> xs = replicate (length xs) None"
  by (induction xs) auto

lemma all_Some_map: "list_all (\<lambda>s. s \<noteq> None) xs \<Longrightarrow> map Some (map the xs) = xs"
  by (induction xs) auto

lemma vec_inv_vec:
  assumes "vec_inv v"
  shows "v = vec (elems v) (Capacity v - size' v)"
proof -
  from assms have le: "size' v \<le> length (data' v)"
    by (simp add: vec_inv_def Capacity_def)
  from assms have live: "map Some (map the (take (size' v) (data' v))) = take (size' v) (data' v)"
    unfolding vec_inv_def by (intro all_Some_map) simp
  from assms have "list_all (\<lambda>s. s = None) (drop (size' v) (data' v))"
    by (simp add: vec_inv_def)
  from all_None_replicate [OF this]
  have raw: "drop (size' v) (data' v) = replicate (length (data' v) - size' v) None"
    by simp
  have "data' v = take (size' v) (data' v) @ drop (size' v) (data' v)"
    by simp
  with live raw le show ?thesis
    by (simp add: vec_def elems_def Capacity_def min_def)
qed

lemma vec_inv_of_vec [simp]: "vec_inv (vec xs k)"
  by (simp add: vec_inv_def vec_def Capacity_def list_all_iff)

lemma elems_vec [simp]: "elems (vec xs k) = xs"
  by (simp add: elems_def vec_def comp_def)

lemma Capacity_vec [simp]: "Capacity (vec xs k) = length xs + k"
  by (simp add: Capacity_def vec_def)

lemma size_vec [simp]: "size' (vec xs k) = length xs"
  by (simp add: vec_def)

lemma data_vec [simp]: "data' (vec xs k) = map Some xs @ replicate k None"
  by (simp add: vec_def)

lemma vec_eq_iff [simp]: "vec xs k = vec ys j \<longleftrightarrow> xs = ys \<and> k = j"
proof
  assume "vec xs k = vec ys j"
  then have "elems (vec xs k) = elems (vec ys j)" "Capacity (vec xs k) = Capacity (vec ys j)"
    by simp_all
  then show "xs = ys \<and> k = j" by simp
qed simp

lemma uninitialized_move_n_segment:
  assumes "length mid = length ys"
  shows "uninitialized_move_n T (spre @ map Some ys @ spost) (length spre) (length ys)
           (A @ mid @ dpost) (length A)
         = (if \<exists>y\<in>set ys. move_throws T y
            then Thrown ConstructionError (spre @ map Some (moved_prefix T ys) @ spost,
                   A @ replicate (length (takeWhile (\<lambda>y. \<not> move_throws T y) ys)) None
                     @ drop (length (takeWhile (\<lambda>y. \<not> move_throws T y) ys)) mid @ dpost)
            else Done (spre @ map Some (moved_prefix T ys) @ spost, A @ map Some ys @ dpost))"
  using uninitialized_move_from_segment [OF assms, of T spre spost A "[]" dpost]
  by (simp add: uninitialized_move_n_def)

lemma uninitialized_copy_n_segment:
  assumes "length mid = length ys"
  shows "uninitialized_copy_n T (spre @ map Some ys @ spost) (length spre) (length ys)
           (A @ mid @ dpost) (length A)
         = (if \<exists>y\<in>set ys. copy_throws T y
            then Thrown ConstructionError (spre @ map Some ys @ spost,
                   A @ replicate (length (takeWhile (\<lambda>y. \<not> copy_throws T y) ys)) None
                     @ drop (length (takeWhile (\<lambda>y. \<not> copy_throws T y) ys)) mid @ dpost)
            else Done (spre @ map Some ys @ spost, A @ map Some ys @ dpost))"
  using uninitialized_copy_from_segment [OF assms, of T spre spost A "[]" dpost]
  by (simp add: uninitialized_copy_n_def)

lemma replicate_takeWhile_drop:
  "replicate (length (takeWhile P xs)) x @ replicate (length xs - length (takeWhile P xs)) x
     = replicate (length xs) x"
proof -
  have "length (takeWhile P xs) + (length xs - length (takeWhile P xs)) = length xs"
    using length_takeWhile_le [of P xs] by simp
  then show ?thesis
    by (simp flip: replicate_add)
qed

text \<open>Transferring all elements of a vector into the first slots of a fresh block.\<close>

lemma uninitialized_move_n_whole:
  "uninitialized_move_n T (map Some xs @ post) 0 (length xs) (replicate (length xs) None @ rest) 0
     = (if \<exists>x\<in>set xs. move_throws T x
        then Thrown ConstructionError
               (map Some (moved_prefix T xs) @ post, replicate (length xs) None @ rest)
        else Done (map Some (moved_prefix T xs) @ post, map Some xs @ rest))"
  using uninitialized_move_n_segment [of "replicate (length xs) None" xs T "[]" post "[]" rest]
  by (simp add: replicate_takeWhile_drop)

lemma uninitialized_copy_n_whole:
  "uninitialized_copy_n T (map Some xs @ post) 0 (length xs) (replicate (length xs) None @ rest) 0
     = (if \<exists>x\<in>set xs. copy_throws T x
        then Thrown ConstructionError (map Some xs @ post, replicate (length xs) None @ rest)
        else Done (map Some xs @ post, map Some xs @ rest))"
  using uninitialized_copy_n_segment [of "replicate (length xs) None" xs T "[]" post "[]" rest]
  by (simp add: replicate_takeWhile_drop)

lemma destroy_n_whole:
  "n = length ys \<Longrightarrow> destroy_n (map Some ys @ post) 0 n = Some (replicate n None @ post)"
  using destroy_n_segment [of "[]" ys post] by simp

lemma Reserve_vec:
  "Reserve T (vec xs k) n =
     (if n \<le> length xs + k then Done (vec xs k)
      else if alloc_fails T n then Thrown AllocationError (vec xs k)
      else if nothrow_move_constructible T \<or> \<not> copy_constructible T then
        (if \<exists>x\<in>set xs. move_throws T x
         then Thrown ConstructionError (vec (moved_prefix T xs) k)
         else Done (vec xs (n - length xs)))
      else
        (if \<exists>x\<in>set xs. copy_throws T x
         then Thrown ConstructionError (vec xs k)
         else Done (vec xs (n - length xs))))"
proof (cases "n \<le> length xs + k")
  case True
  then show ?thesis by (simp add: Reserve_def)
next
  case False
  then have fresh: "replicate n None = replicate (length xs) (None :: 'a option) @ replicate (n - length xs) None"
    by (simp flip: replicate_add)
  from False show ?thesis
    unfolding Reserve_def Allocate_def
    by (simp add: fresh uninitialized_move_n_whole uninitialized_copy_n_whole destroy_n_whole vec_def
        Capacity_def)
qed

lemma replicate_update:
  "i < n \<Longrightarrow> (replicate n x)[i := y] = replicate i x @ y # replicate (n - Suc i) x"
proof -
  assume "i < n"
  then have "replicate n x = replicate i x @ x # replicate (n - Suc i) x"
    by (metis Suc_diff_Suc add_Suc_right le_add_diff_inverse less_imp_le_nat replicate_Suc replicate_add)
  then show ?thesis
    by (simp add: list_update_append)
qed

lemma emplace_at_fresh:
  "i < n \<Longrightarrow> emplace_at (replicate n None) i a =
     (case a of
        Throws \<Rightarrow> Thrown ConstructionError ()
      | Constructs x \<Rightarrow> Done (replicate i None @ Some x # replicate (n - Suc i) None))"
  by (simp add: emplace_at_def replicate_update split: args.splits)

lemma emplace_at_slot:
  "i = length pre \<Longrightarrow> emplace_at (pre @ s # post) i a =
     (case a of
        Throws \<Rightarrow> Thrown ConstructionError ()
      | Constructs x \<Rightarrow> Done (pre @ Some x # post))"
  by (simp add: emplace_at_def split: args.splits)

lemmas uninitialized_move_n_whole0 = uninitialized_move_n_whole [where post = "[]", simplified]
lemmas uninitialized_copy_n_whole0 = uninitialized_copy_n_whole [where post = "[]", simplified]
lemmas destroy_n_whole0 = destroy_n_whole [where post = "[]", simplified]

lemma uninitialized_move_n_none [simp]: "uninitialized_move_n T src first 0 dst d_first = Done (src, dst)"
  by (simp add: uninitialized_move_n_def)

lemma uninitialized_copy_n_none [simp]: "uninitialized_copy_n T src first 0 dst d_first = Done (src, dst)"
  by (simp add: uninitialized_copy_n_def)

lemma EmplaceBack_vec_full:
  "EmplaceBack T (vec xs 0) a =
     (if alloc_fails T (if xs = [] then 1 else length xs * 2)
      then Thrown AllocationError (vec xs 0)
      else case a of
        Throws \<Rightarrow> Thrown ConstructionError (vec xs 0)
      | Constructs x \<Rightarrow>
          if nothrow_move_constructible T \<or> \<not> copy_constructible T then
            (if \<exists>y\<in>set xs. move_throws T y
             then Thrown ConstructionError (vec (moved_prefix T xs) 0)
             else Done (vec (xs @ [x]) ((if xs = [] then 1 else length xs * 2) - Suc (length xs))))
          else
            (if \<exists>y\<in>set xs. copy_throws T y
             then Thrown ConstructionError (vec xs 0)
             else Done (vec (xs @ [x]) ((if xs = [] then 1 else length xs * 2) - Suc (length xs)))))"
proof (cases "xs = []")
  case True
  then show ?thesis
    unfolding EmplaceBack_def Allocate_def
    by (simp add: emplace_at_def vec_def Capacity_def split: args.splits)
next
  case False
  then have c: "length xs < length xs * 2" "length xs * 2 \<noteq> 0"
    by simp_all
  from False c show ?thesis
    unfolding EmplaceBack_def Allocate_def
    by (simp add: emplace_at_fresh uninitialized_move_n_whole0
        uninitialized_copy_n_whole0 destroy_n_whole0 vec_def Capacity_def split: args.splits)
qed

lemma EmplaceBack_vec_spare:
  "EmplaceBack T (vec xs (Suc k)) a =
     (case a of
        Throws \<Rightarrow> Thrown ConstructionError (vec xs (Suc k))
      | Constructs x \<Rightarrow> Done (vec (xs @ [x]) k))"
  unfolding EmplaceBack_def
  by (simp add: emplace_at_slot vec_def Capacity_def split: args.splits)

lemma moved_prefix_append:
  "moved_prefix T (as @ bs) =
     (if \<exists>y\<in>set as. move_throws T y then moved_prefix T as @ bs
      else moved_prefix T as @ moved_prefix T bs)"
  by (induction as) auto

lemma Emplace_vec_full:
  assumes c: "c = (if as @ bs = [] then 1 else length (as @ bs) * 2)"
  shows "Emplace T (vec (as @ bs) 0) (int (length as)) a =
     (if alloc_fails T c then Thrown AllocationError (vec (as @ bs) 0)
      else case a of
        Throws \<Rightarrow> Thrown ConstructionError (vec (as @ bs) 0)
      | Constructs x \<Rightarrow>
          if nothrow_move_constructible T \<or> \<not> copy_constructible T then
            (if \<exists>y\<in>set (as @ bs). move_throws T y
             then Thrown ConstructionError (vec (moved_prefix T (as @ bs)) 0)
             else Done (vec (as @ x # bs) (c - Suc (length (as @ bs)))))
          else
            (if \<exists>y\<in>set (as @ bs). copy_throws T y
             then Thrown ConstructionError (vec (as @ bs) 0)
             else Done (vec (as @ x # bs) (c - Suc (length (as @ bs))))))"
proof -
  define r where "r = c - Suc (length as + length bs)"
  have cap: "(if size' (vec (as @ bs) 0) = 0 then 1 else size' (vec (as @ bs) 0) * 2) = c"
    by (simp add: c)
  have c0: "c \<noteq> 0" and c1: "length as < c" and c2: "c - Suc (length as) = length bs + r"
    by (auto simp: c r_def)
  have fresh: "replicate (length bs + r) (None :: 'a option) = replicate (length bs) None @ replicate r None"
    by (simp add: replicate_add)
  have mv2: "uninitialized_move_n T (map Some (moved_prefix T as) @ map Some bs) (length as) (length bs)
          (map Some as @ Some x # replicate (length bs) None @ replicate r None) (Suc (length as))
      = (if \<exists>y\<in>set bs. move_throws T y
         then Thrown ConstructionError (map Some (moved_prefix T as) @ map Some (moved_prefix T bs),
                map Some as @ Some x # replicate (length bs) None @ replicate r None)
         else Done (map Some (moved_prefix T as) @ map Some (moved_prefix T bs),
                map Some as @ Some x # map Some bs @ replicate r None))" for x
    using uninitialized_move_n_segment [of "replicate (length bs) None" bs T "map Some (moved_prefix T as)"
        "[]" "map Some as @ [Some x]" "replicate r None"]
    by (simp add: replicate_takeWhile_drop)
  have cp2: "uninitialized_copy_n T (map Some as @ map Some bs) (length as) (length bs)
          (map Some as @ Some x # replicate (length bs) None @ replicate r None) (Suc (length as))
      = (if \<exists>y\<in>set bs. copy_throws T y
         then Thrown ConstructionError (map Some as @ map Some bs,
                map Some as @ Some x # replicate (length bs) None @ replicate r None)
         else Done (map Some as @ map Some bs,
                map Some as @ Some x # map Some bs @ replicate r None))" for x
    using uninitialized_copy_n_segment [of "replicate (length bs) None" bs T "map Some as"
        "[]" "map Some as @ [Some x]" "replicate r None"]
    by (simp add: replicate_takeWhile_drop)
  have d1: "destroy_n (map Some (moved_prefix T as) @ map Some (moved_prefix T bs)) 0
              (length as + length bs) = Some (replicate (length as + length bs) None)"
    using destroy_n_whole0 [of "length as + length bs" "moved_prefix T as @ moved_prefix T bs"] by simp
  have d2: "destroy_n (map Some as @ map Some bs) 0 (length as + length bs)
              = Some (replicate (length as + length bs) None)"
    using destroy_n_whole0 [of "length as + length bs" "as @ bs"] by simp
  have d3: "destroy_n (pre @ Some x # post) (length as) (Suc 0) = Some (pre @ None # post)"
    if "length pre = length as"
    for pre post :: "'a option list" and x
    using that [symmetric] by (simp add: nth_append)
  show ?thesis
  proof (cases a)
    case Throws
    with c0 c1 show ?thesis
      unfolding Emplace_def EmplaceWithReallocate_def Allocate_def cap
      by (simp add: emplace_at_fresh vec_def Capacity_def)
  next
    case (Constructs x)
    show ?thesis
    proof (cases "alloc_fails T c")
      case True
      with c0 show ?thesis
        unfolding Emplace_def EmplaceWithReallocate_def Allocate_def cap
        by (simp add: vec_def Capacity_def)
    next
      case noalloc: False
      show ?thesis
      proof (cases "nothrow_move_constructible T \<or> \<not> copy_constructible T")
        case True
        with c0 c1 noalloc Constructs d1 show ?thesis
          unfolding Emplace_def EmplaceWithReallocate_def Allocate_def cap
          by (simp add: emplace_at_fresh uninitialized_move_n_whole c2
              fresh mv2 vec_def Capacity_def moved_prefix_append r_def [symmetric] ball_Un bex_Un)
      next
        case cp: False
        with c0 c1 noalloc Constructs d2 show ?thesis
          unfolding Emplace_def EmplaceWithReallocate_def Allocate_def cap
          by (simp add: emplace_at_fresh uninitialized_copy_n_whole c2
              fresh cp2 d3 vec_def Capacity_def r_def [symmetric] ball_Un bex_Un nth_append)
      qed
    qed
  qed
qed

lemma move_backward_from_throws:
  assumes "\<exists>y\<in>set ys. move_assign_throws T y"
  shows "\<exists>b. move_backward_from T (pre @ map Some ys @ Some d # post) (length pre) (length ys)
           (Suc (length pre + length ys)) = Thrown ConstructionError b"
  using assms
proof (induction ys arbitrary: d post rule: rev_induct)
  case Nil
  then show ?case by simp
next
  case (snoc y ys)
  show ?case
  proof (cases "move_assign_throws T y")
    case True
    then show ?thesis by (simp add: nth_append)
  next
    case False
    with snoc.prems have "\<exists>y\<in>set ys. move_assign_throws T y" by auto
    from snoc.IH [OF this, of "moved_from T y" "Some y # post"] False show ?thesis
      by (simp add: nth_append list_update_append)
  qed
qed

lemma move_from_throws:
  assumes "\<exists>y\<in>set ys. move_assign_throws T y"
  shows "\<exists>b. move_from T (pre @ Some d # map Some ys @ post) (Suc (length pre)) (length ys) (length pre)
           = Thrown ConstructionError b"
  using assms
proof (induction ys arbitrary: pre d)
  case Nil
  then show ?case by simp
next
  case (Cons y ys)
  show ?case
  proof (cases "move_assign_throws T y")
    case True
    then show ?thesis by (simp add: nth_append)
  next
    case False
    with Cons.prems have "\<exists>y\<in>set ys. move_assign_throws T y" by auto
    from Cons.IH [OF this, of "pre @ [Some y]" "moved_from T y"] False show ?thesis
      by (simp add: nth_append list_update_append)
  qed
qed

lemma copy_from_throws:
  assumes "length ds = length ys" and "\<exists>y\<in>set ys. copy_assign_throws T y"
  shows "\<exists>b. copy_from T (spre @ map Some ys @ spost) (length spre) (length ys)
           (dpre @ map Some ds @ dpost) (length dpre) = Thrown ConstructionError b"
  using assms
proof (induction ys arbitrary: spre dpre ds)
  case Nil
  then show ?case by simp
next
  case (Cons y ys)
  then obtain d ds' where ds: "ds = d # ds'" "length ds' = length ys"
    by (cases ds) auto
  show ?case
  proof (cases "copy_assign_throws T y")
    case True
    with ds show ?thesis by (simp add: nth_append)
  next
    case False
    with Cons.prems have "\<exists>y\<in>set ys. copy_assign_throws T y" by auto
    from Cons.IH [OF ds(2) this, of "spre @ [Some y]" "dpre @ [Some y]"] False ds show ?thesis
      by (simp add: nth_append list_update_append)
  qed
qed

lemma Emplace_vec_spare_empty:
  "Emplace T (vec [] (Suc k)) 0 a =
     (case a of
        Throws \<Rightarrow> Thrown ConstructionError (vec [] (Suc k))
      | Constructs x \<Rightarrow> Done (vec [x] k))"
  unfolding Emplace_def EmplaceWithoutReallocate_def
  by (simp add: emplace_at_def vec_def Capacity_def split: args.splits)

lemma move_construct_last_vec:
  "move_construct_last T (map Some ys @ Some y # None # post) (Suc (length ys)) =
     (if move_throws T y then Thrown ConstructionError (map Some ys @ Some y # None # post)
      else Done (map Some ys @ Some (moved_from T y) # Some y # post))"
  by (simp add: move_construct_last_def nth_append list_update_append)

lemma Emplace_vec_spare:
  assumes split: "ys @ [moved_from T y] = as @ bs"
  shows "Emplace T (vec (ys @ [y]) (Suc k)) (int (length as)) a =
     (if move_throws T y then Thrown ConstructionError (vec (ys @ [y]) (Suc k))
      else if \<exists>z\<in>set bs. move_assign_throws T z then
        Emplace T (vec (ys @ [y]) (Suc k)) (int (length as)) a
      else case a of
        Throws \<Rightarrow> Thrown ConstructionError
          \<lparr>data' = map Some as @ None # map Some bs @ replicate k None, size' = Suc (length ys)\<rparr>
      | Constructs x \<Rightarrow> Done (vec (as @ x # bs) k))"
proof -
  from split have len: "length as + length bs = Suc (length ys)"
    by (metis length_append length_append_singleton)
  then have le: "length as \<le> Suc (length ys)" and bs: "Suc (length ys) - length as = length bs"
    by simp_all
  have buf1: "map Some ys @ [Some (moved_from T y)] = map Some as @ map Some bs"
    using arg_cong [OF split, of "map Some"] by simp
  have mb: "move_backward_from T (map Some as @ map Some bs @ Some y # replicate k None)
              (length as) (length bs) (Suc (Suc (length ys)))
            = Done (map Some as @ Some (if bs = [] then y else moved_from T (hd bs))
                      # map Some bs @ replicate k None)"
    if "\<forall>z\<in>set bs. \<not> move_assign_throws T z"
    using move_backward_from_segment [OF that, of "map Some as" y "replicate k None"] len
    by simp
  have d3: "destroy_n (map Some as @ Some z # post) (length as) (Suc 0)
              = Some (map Some as @ None # post)" for z post
    by (simp add: nth_append list_update_append)
  have start: "map Some ys @ Some (moved_from T y) # Some y # replicate k None
                 = map Some as @ map Some bs @ Some y # replicate k None"
    using buf1 by (metis append.assoc append_Cons append_Nil)
  show ?thesis
  proof (cases "move_throws T y \<or> (\<exists>z\<in>set bs. move_assign_throws T z)")
    case True
    with le show ?thesis
      unfolding Emplace_def EmplaceWithoutReallocate_def
      by (auto simp add: vec_def Capacity_def move_construct_last_vec)
  next
    case False
    then have no: "\<forall>z\<in>set bs. \<not> move_assign_throws T z" by simp
    from False le show ?thesis
      unfolding Emplace_def EmplaceWithoutReallocate_def
      by (simp add: vec_def Capacity_def move_construct_last_vec start move_backward_def bs mb [OF no]
          d3 emplace_at_slot len del: destroy_n.simps split: args.splits)
  qed
qed

lemma Emplace_vec_spare_throws:
  assumes split: "ys @ [moved_from T y] = as @ bs"
    and "\<not> move_throws T y" and "\<exists>z\<in>set bs. move_assign_throws T z"
  shows "Emplace T (vec (ys @ [y]) (Suc k)) (int (length as)) a \<noteq> Done v'"
proof -
  from split have len: "length as + length bs = Suc (length ys)"
    by (metis length_append length_append_singleton)
  then have le: "length as \<le> Suc (length ys)" and bs: "Suc (length ys) - length as = length bs"
    by simp_all
  have buf1: "map Some ys @ [Some (moved_from T y)] = map Some as @ map Some bs"
    using arg_cong [OF split, of "map Some"] by simp
  have start: "map Some ys @ Some (moved_from T y) # Some y # replicate k None
                 = map Some as @ map Some bs @ Some y # replicate k None"
    using buf1 by (metis append.assoc append_Cons append_Nil)
  obtain b where "move_backward_from T (map Some as @ map Some bs @ Some y # replicate k None)
              (length as) (length bs) (Suc (Suc (length ys))) = Thrown ConstructionError b"
    using move_backward_from_throws [OF assms(3), of "map Some as" y "replicate k None"] len
    by auto
  with assms(2) le show ?thesis
    unfolding Emplace_def EmplaceWithoutReallocate_def
    by (simp add: vec_def Capacity_def move_construct_last_vec start move_backward_def bs
        split: option.splits)
qed

lemma PopBack_vec_empty: "PopBack (vec [] k) = Done (vec [] k)"
  by (simp add: PopBack_def vec_def)

lemma PopBack_vec_snoc: "PopBack (vec (ys @ [y]) k) = Done (vec ys (Suc k))"
  by (simp add: PopBack_def vec_def nth_append list_update_append)

lemma PopBack_vec: "PopBack (vec xs k) = Done (if xs = [] then vec xs k else vec (butlast xs) (Suc k))"
  by (cases xs rule: rev_cases) (simp_all add: PopBack_vec_empty PopBack_vec_snoc)

lemma Erase_vec_outside:
  "pos < 0 \<or> int (length xs) < pos \<Longrightarrow> Erase T (vec xs k) pos = Done (vec xs k)"
  by (auto simp: Erase_def)

lemma Erase_vec_end: "Erase T (vec xs k) (int (length xs)) = Fatal Undefined"
  by (simp add: Erase_def std_move_def)

lemma Erase_vec:
  "Erase T (vec (as @ d # bs) k) (int (length as)) =
     (if \<exists>y\<in>set bs. move_assign_throws T y then Fatal Terminated
      else Done (vec (as @ bs) (Suc k)))"
proof (cases "\<exists>y\<in>set bs. move_assign_throws T y")
  case True
  from move_from_throws [OF True, of "map Some as" d "replicate k None"]
  obtain b where "move_from T (map Some as @ Some d # map Some bs @ replicate k None)
                    (Suc (length as)) (length bs) (length as) = Thrown ConstructionError b"
    by auto
  with True show ?thesis
    by (simp add: Erase_def std_move_def vec_def)
next
  case False
  then have no: "\<forall>y\<in>set bs. \<not> move_assign_throws T y" by simp
  have "move_from T (map Some as @ Some d # map Some bs @ replicate k None)
          (Suc (length as)) (length bs) (length as)
        = Done (map Some as @ map Some bs
                  @ Some (if bs = [] then d else moved_from T (last bs)) # replicate k None)"
    using move_from_segment [OF no, of "map Some as" d "replicate k None"] by simp
  with False show ?thesis
    by (simp add: Erase_def std_move_def vec_def PopBack_def nth_append list_update_append)
qed

lemma uninitialized_value_construct_n_vec:
  "uninitialized_value_construct_n T (map Some xs @ replicate m None @ post) (length xs) m =
     (case value_init T of
        Some x \<Rightarrow> Done (map Some xs @ replicate m (Some x) @ post)
      | None \<Rightarrow>
          if m = 0 then Done (map Some xs @ post)
          else Thrown ConstructionError (map Some xs @ replicate m None @ post))"
  using uninitialized_value_construct_from_segment [of "replicate m None" m T "map Some xs" "[]" post]
  by (simp add: uninitialized_value_construct_n_def split: option.splits)

lemma destroy_n_tail:
  "destroy_n (map Some as @ map Some bs @ post) (length as) (length bs)
     = Some (map Some as @ replicate (length bs) None @ post)"
  using destroy_n_segment [of "map Some as" bs post] by simp

lemma Resize_vec_shrink:
  "Resize T (vec (as @ bs) k) (length as) = Done (vec as (length bs + k))"
  by (cases "bs = []")
    (simp_all add: Resize_def vec_def destroy_n_tail Capacity_def uninitialized_value_construct_n_def
      replicate_add)

lemma Resize_vec_within:
  "Resize T (vec xs (m + k)) (length xs + m) =
     (case value_init T of
        Some x \<Rightarrow> Done (vec (xs @ replicate m x) k)
      | None \<Rightarrow> if m = 0 then Done (vec xs k) else Thrown ConstructionError (vec xs (m + k)))"
  using uninitialized_value_construct_n_vec [of T xs m "replicate k None"]
  by (simp add: Resize_def vec_def Capacity_def replicate_add map_replicate_const split: option.splits)

lemma Resize_vec_grow:
  assumes "length xs + k < length xs + m"
    and c: "c = max (length xs + m) (((length xs + k) * 2) mod 2 ^ 64)"
  shows "Resize T (vec xs k) (length xs + m) =
     (case Reserve T (vec xs k) c of
        Fatal a \<Rightarrow> Fatal a
      | Thrown f v' \<Rightarrow> Thrown f v'
      | Done v' \<Rightarrow>
          (case value_init T of
             Some x \<Rightarrow> Done (vec (xs @ replicate m x) (c - (length xs + m)))
           | None \<Rightarrow> Thrown ConstructionError (vec xs (c - length xs))))"
proof -
  have le: "length xs + k < c" "m \<noteq> 0" and split: "c - length xs = m + (c - (length xs + m))"
    using assms by (auto simp: max_def)
  have cap: "max (length xs + m) ((Capacity (vec xs k) * 2) mod 2 ^ 64) = c"
    by (simp add: c)
  note vc = uninitialized_value_construct_n_vec [of T xs m "replicate (c - (length xs + m)) None"]
  from le assms(1) show ?thesis
    unfolding Resize_def cap
    by (simp add: Reserve_vec split vc replicate_add map_replicate_const split: option.splits)
qed

lemma Resize_vec_grow_Done:
  assumes "length xs + k < n" and "c = max n (((length xs + k) * 2) mod 2 ^ 64)"
    and "Reserve T (vec xs k) c = Done v'" and "value_init T = Some x"
    and "ys = xs @ replicate (n - length xs) x" and "j = c - n"
  shows "Resize T (vec xs k) n = Done (vec ys j)"
proof -
  define m where "m = n - length xs"
  from assms(1) have n: "n = length xs + m"
    by (simp add: m_def)
  from assms(1,2) have "length xs + k < length xs + m"
    and "c = max (length xs + m) (((length xs + k) * 2) mod 2 ^ 64)"
    by (simp_all add: n)
  from Resize_vec_grow [OF this, of T] assms(3-) show ?thesis
    by (simp add: n)
qed

lemma uninitialized_value_construct_n_none [simp]:
  "uninitialized_value_construct_n T buf first 0 = Done buf"
  by (simp add: uninitialized_value_construct_n_def)

lemma Vector_sized_eq:
  "Vector_sized T n =
     (if n \<noteq> 0 \<and> alloc_fails T n then Thrown AllocationError ()
      else case value_init T of
        Some x \<Rightarrow> Done (vec (replicate n x) 0)
      | None \<Rightarrow> if n = 0 then Done (vec [] 0) else Thrown ConstructionError ())"
  using uninitialized_value_construct_n_vec [of T "[]" n "[]"]
  by (simp add: Vector_sized_def Allocate_def vec_def map_replicate_const split: option.splits)

lemma Vector_copy_vec:
  "Vector_copy T (vec xs k) =
     (if xs \<noteq> [] \<and> alloc_fails T (length xs) then Thrown AllocationError ()
      else if \<exists>x\<in>set xs. copy_throws T x then Thrown ConstructionError ()
      else Done (vec xs 0))"
  using uninitialized_copy_n_whole [of T xs "replicate k None" "[]"]
  by (simp add: Vector_copy_def Allocate_def vec_def)

lemma Swap_fst [simp]: "fst (Swap this other) = other"
  by (simp add: Swap_def)

lemma Swap_snd [simp]: "snd (Swap this other) = this"
  by (simp add: Swap_def)

lemma assign_distinct_realloc:
  assumes "length xs + k < length ys"
  shows "assign_distinct T (vec xs k) (vec ys j) =
     (if alloc_fails T (length ys) \<or> (\<exists>y\<in>set ys. copy_throws T y) then Fatal Terminated
      else Done (vec ys 0))"
proof -
  from assms have "ys \<noteq> []" by auto
  with assms show ?thesis
    by (simp add: assign_distinct_def Vector_copy_vec)
qed

lemma assign_distinct_shrink:
  assumes "length xa = length ys"
  shows "assign_distinct T (vec (xa @ xb) k) (vec ys j) =
     (if \<exists>y\<in>set ys. copy_assign_throws T y then Fatal Terminated
      else Done (vec ys (length xb + k)))"
proof (cases "\<exists>y\<in>set ys. copy_assign_throws T y")
  case True
  from copy_from_throws [OF assms True, of "[]" "replicate j None" "[]" "map Some xb @ replicate k None"]
  obtain b where "copy_from T (map Some ys @ replicate j None) 0 (length ys)
           (map Some xa @ map Some xb @ replicate k None) 0 = Thrown ConstructionError b"
    by auto
  with True assms show ?thesis
    by (simp add: assign_distinct_def vec_def Capacity_def)
next
  case False
  then have no: "\<forall>y\<in>set ys. \<not> copy_assign_throws T y" by simp
  have cp: "copy_from T (map Some ys @ replicate j None) 0 (length ys)
           (map Some xa @ map Some xb @ replicate k None) 0
          = Done (map Some ys @ map Some xb @ replicate k None)"
    using copy_from_segment [OF assms no, of "[]" "replicate j None" "[]"
        "map Some xb @ replicate k None"]
    by simp
  have d: "destroy_n (map Some ys @ map Some xb @ replicate k None) (length ys) (length xb)
             = Some (map Some ys @ replicate (length xb) None @ replicate k None)"
    by (rule destroy_n_tail)
  from False assms cp d show ?thesis
    by (cases "xb = []") (simp_all add: assign_distinct_def vec_def replicate_add Capacity_def)
qed

lemma assign_distinct_grow:
  assumes "length ya = length xs"
  shows "assign_distinct T (vec xs (length yb + k)) (vec (ya @ yb) j) =
     (if (\<exists>y\<in>set ya. copy_assign_throws T y) \<or> (\<exists>y\<in>set yb. copy_throws T y) then Fatal Terminated
      else Done (vec (ya @ yb) k))"
proof (cases "\<exists>y\<in>set ya. copy_assign_throws T y")
  case True
  from copy_from_throws [OF assms [symmetric] True, of "[]" "map Some yb @ replicate j None" "[]"
      "replicate (length yb) None @ replicate k None"]
  obtain b where "copy_from T (map Some ya @ map Some yb @ replicate j None) 0 (length ya)
           (map Some xs @ replicate (length yb) None @ replicate k None) 0 = Thrown ConstructionError b"
    by auto
  with True assms show ?thesis
    by (simp add: assign_distinct_def replicate_add vec_def Capacity_def)
next
  case False
  then have no: "\<forall>y\<in>set ya. \<not> copy_assign_throws T y" by simp
  have cp: "copy_from T (map Some ya @ map Some yb @ replicate j None) 0 (length ya)
           (map Some xs @ replicate (length yb) None @ replicate k None) 0
          = Done (map Some ya @ replicate (length yb) None @ replicate k None)"
    using copy_from_segment [OF assms [symmetric] no, of "[]" "map Some yb @ replicate j None" "[]"
        "replicate (length yb) None @ replicate k None"]
    by simp
  have uc: "uninitialized_copy_n T (map Some ya @ map Some yb @ replicate j None) (length ya) (length yb)
          (map Some ya @ replicate (length yb) None @ replicate k None) (length ya)
      = (if \<exists>y\<in>set yb. copy_throws T y
         then Thrown ConstructionError (map Some ya @ map Some yb @ replicate j None,
                map Some ya @ replicate (length yb) None @ replicate k None)
         else Done (map Some ya @ map Some yb @ replicate j None,
                map Some ya @ map Some yb @ replicate k None))"
    using uninitialized_copy_n_segment [of "replicate (length yb) None" yb T "map Some ya"
        "replicate j None" "map Some ya" "replicate k None"]
    by (simp add: replicate_takeWhile_drop)
  from False assms cp uc show ?thesis
    by (simp add: assign_distinct_def vec_def replicate_add Capacity_def)
qed

lemma vec_cases:
  assumes "vec_inv v"
  obtains xs k where "v = vec xs k"
  using vec_inv_vec [OF assms] by blast

lemma Emplace_vec_full_at:
  assumes "i \<le> length xs" and "c = (if xs = [] then 1 else length xs * 2)"
  shows "Emplace T (vec xs 0) (int i) a =
     (if alloc_fails T c then Thrown AllocationError (vec xs 0)
      else case a of
        Throws \<Rightarrow> Thrown ConstructionError (vec xs 0)
      | Constructs x \<Rightarrow>
          if nothrow_move_constructible T \<or> \<not> copy_constructible T then
            (if \<exists>y\<in>set xs. move_throws T y
             then Thrown ConstructionError (vec (moved_prefix T xs) 0)
             else Done (vec (take i xs @ x # drop i xs) (c - Suc (length xs))))
          else
            (if \<exists>y\<in>set xs. copy_throws T y
             then Thrown ConstructionError (vec xs 0)
             else Done (vec (take i xs @ x # drop i xs) (c - Suc (length xs)))))"
proof -
  have whole: "take i xs @ drop i xs = xs"
    by simp
  from assms(1) have len: "length (take i xs) = i"
    by simp
  from assms(2) have "c = (if take i xs @ drop i xs = [] then 1 else length (take i xs @ drop i xs) * 2)"
    unfolding whole .
  from Emplace_vec_full [OF this, of T a] show ?thesis
    unfolding whole len .
qed

section \<open>Every operation keeps a vector in good state\<close>

lemma Vector_default_inv: "vec_inv Vector_default"
  by (simp add: vec_inv_def Vector_default_def Capacity_def)

lemma Vector_default_vec: "Vector_default = vec [] 0"
  by (simp add: Vector_default_def vec_def)

lemma Vector_sized_inv: "Vector_sized T n = Done v' \<Longrightarrow> vec_inv v'"
  by (auto simp: Vector_sized_eq split: if_splits option.splits)

lemma Vector_copy_inv: "vec_inv v \<Longrightarrow> Vector_copy T v = Done v' \<Longrightarrow> vec_inv v'"
  by (erule vec_cases) (auto simp: Vector_copy_vec split: if_splits)

lemma Reserve_inv: "vec_inv v \<Longrightarrow> Reserve T v n = Done v' \<Longrightarrow> vec_inv v'"
  by (erule vec_cases) (auto simp: Reserve_vec split: if_splits)

lemma PopBack_inv: "vec_inv v \<Longrightarrow> PopBack v = Done v' \<Longrightarrow> vec_inv v'"
  by (erule vec_cases) (auto simp: PopBack_vec split: if_splits)

lemma EmplaceBack_inv:
  assumes "vec_inv v" and "EmplaceBack T v a = Done v'"
  shows "vec_inv v'"
proof -
  from assms(1) obtain xs k where v: "v = vec xs k"
    by (rule vec_cases)
  show ?thesis
  proof (cases k)
    case 0
    with assms(2) show ?thesis
      by (auto simp: v EmplaceBack_vec_full split: if_splits args.splits)
  next
    case (Suc k')
    with assms(2) show ?thesis
      by (auto simp: v EmplaceBack_vec_spare split: args.splits)
  qed
qed

lemma Emplace_inv:
  assumes "vec_inv v" and ok: "Emplace T v pos a = Done v'"
  shows "vec_inv v'"
proof -
  from assms(1) obtain xs k where v: "v = vec xs k"
    by (rule vec_cases)
  from ok have "0 \<le> pos" "pos \<le> int (length xs)"
    by (auto simp: Emplace_def v split: if_splits)
  then obtain i where i: "pos = int i" "i \<le> length xs"
    by (metis nonneg_int_cases of_nat_le_iff)
  show ?thesis
  proof (cases k)
    case 0
    from ok show ?thesis
      unfolding v 0 i
      by (subst (asm) Emplace_vec_full_at [OF i(2) refl]) (auto split: if_splits args.splits)
  next
    case (Suc k')
    show ?thesis
    proof (cases xs rule: rev_cases)
      case Nil
      with ok i show ?thesis
        by (auto simp: v Suc Emplace_vec_spare_empty split: args.splits)
    next
      case (snoc ys y)
      define sh where "sh = ys @ [moved_from T y]"
      from i snoc have len: "length (take i sh) = i"
        by (simp add: sh_def)
      have split: "ys @ [moved_from T y] = take i sh @ drop i sh"
        by (simp only: append_take_drop_id sh_def)
      show ?thesis
      proof (cases "\<not> move_throws T y \<and> (\<exists>z\<in>set (drop i sh). move_assign_throws T z)")
        case True
        with Emplace_vec_spare_throws [OF split, where k = k' and a = a and v' = v', unfolded len] ok show ?thesis
          by (simp add: v Suc snoc i len)
      next
        case False
        with Emplace_vec_spare [OF split, where k = k' and a = a, unfolded len] ok show ?thesis
          by (auto simp: v Suc snoc i len split: if_splits args.splits)
      qed
    qed
  qed
qed

lemma Erase_inv:
  assumes "vec_inv v" and ok: "Erase T v pos = Done v'"
  shows "vec_inv v'"
proof -
  from assms(1) obtain xs k where v: "v = vec xs k"
    by (rule vec_cases)
  consider "pos < 0 \<or> int (length xs) < pos" | "pos = int (length xs)"
    | i where "pos = int i" "i < length xs"
    by (metis linorder_neqE_linordered_idom not_less nonneg_int_cases of_nat_less_iff)
  then show ?thesis
  proof cases
    case 1
    with ok show ?thesis
      by (auto simp: v Erase_vec_outside)
  next
    case 2
    with ok show ?thesis
      by (simp add: v Erase_vec_end)
  next
    case 3
    from 3(2) have xs: "xs = take i xs @ xs ! i # drop (Suc i) xs"
      by (rule id_take_nth_drop)
    from 3(2) have len: "length (take i xs) = i"
      by simp
    from Erase_vec [of T "take i xs" "xs ! i" "drop (Suc i) xs" k]
    have "Erase T (vec xs k) (int i) =
            (if \<exists>y\<in>set (drop (Suc i) xs). move_assign_throws T y then Fatal Terminated
             else Done (vec (take i xs @ drop (Suc i) xs) (Suc k)))"
      unfolding len xs [symmetric] .
    with ok 3 show ?thesis
      by (auto simp: v split: if_splits)
  qed
qed

lemma Resize_inv:
  assumes "vec_inv v" and ok: "Resize T v n = Done v'"
  shows "vec_inv v'"
proof -
  from assms(1) obtain xs k where v: "v = vec xs k"
    by (rule vec_cases)
  consider "n < length xs" | m where "n = length xs + m" "m \<le> k"
    | m where "n = length xs + m" "length xs + k < length xs + m"
    by (metis le_add_diff_inverse less_or_eq_imp_le nat_add_left_cancel_le not_less)
  then show ?thesis
  proof cases
    case 1
    then have len: "length (take n xs) = n"
      by simp
    have "Resize T (vec (take n xs @ drop n xs) k) (length (take n xs))
            = Done (vec (take n xs) (length (drop n xs) + k))"
      by (rule Resize_vec_shrink)
    with ok show ?thesis
      unfolding len by (auto simp: v)
  next
    case 2
    then have k: "k = m + (k - m)"
      by simp
    from ok Resize_vec_within [of T xs m "k - m"] show ?thesis
      unfolding v 2(1) k [symmetric] by (auto split: option.splits if_splits)
  next
    case 3
    from ok show ?thesis
      unfolding v 3(1)
      by (subst (asm) Resize_vec_grow [OF 3(2) refl])
        (auto simp: Reserve_vec split: if_splits option.splits)
  qed
qed

lemma assign_distinct_inv:
  assumes "vec_inv this" and "vec_inv rhs" and ok: "assign_distinct T this rhs = Done v'"
  shows "vec_inv v'"
proof -
  from assms(1) obtain xs k where lhs: "this = vec xs k"
    by (rule vec_cases)
  from assms(2) obtain ys j where rhs: "rhs = vec ys j"
    by (rule vec_cases)
  consider "length xs + k < length ys" | "length ys \<le> length xs"
    | "length xs \<le> length ys" "length ys \<le> length xs + k"
    by linarith
  then show ?thesis
  proof cases
    case 1
    with ok show ?thesis
      by (auto simp: lhs rhs assign_distinct_realloc split: if_splits)
  next
    case 2
    then have len: "length (take (length ys) xs) = length ys"
      by simp
    from assign_distinct_shrink [OF len, of T "drop (length ys) xs" k j] ok show ?thesis
      by (auto simp: lhs rhs split: if_splits)
  next
    case 3
    from 3(1) have len: "length (take (length xs) ys) = length xs"
      by simp
    from 3 have k: "k = length (drop (length xs) ys) + (length xs + k - length ys)"
      by simp
    from assign_distinct_grow [OF len, of T "drop (length xs) ys" "length xs + k - length ys" j] ok
    show ?thesis
      unfolding k [symmetric] by (auto simp: lhs rhs split: if_splits)
  qed
qed

lemma Swap_eq: "Swap this other = (other, this)"
  by (simp add: Swap_def)

section \<open>The claims\<close>

subsection \<open>C1: moving or copying into the new block\<close>

text \<open>
  C1. When \<^verbatim>\<open>Reserve\<close>, \<^verbatim>\<open>EmplaceBack\<close> and \<^verbatim>\<open>Emplace\<close> transfer the elements of a
  vector in good state into a newly allocated block, the outcome is that of moving them if
  the element type is nothrow-move-constructible or not copy-constructible, and that of
  copying them in every other case: on the moving path a failure is decided by the move
  constructor and leaves the elements moved so far in their moved-from state, on the
  copying path it is decided by the copy constructor and leaves the vector as it was.
\<close>

theorem relocation_rule:
  assumes "vec_inv v"
  shows "(Capacity v < n \<and> \<not> alloc_fails T n \<longrightarrow>
            Reserve T v n =
              (case (if nothrow_move_constructible T \<or> \<not> copy_constructible T
                     then transfer_by_move T (elems v) else transfer_by_copy T (elems v)) of
                 Inl old \<Rightarrow> Thrown ConstructionError (vec old (Capacity v - size' v))
               | Inr new \<Rightarrow> Done (vec new (n - size' v))))
       \<and> (size' v = Capacity v \<and> \<not> alloc_fails T (grown v) \<longrightarrow>
            EmplaceBack T v (Constructs x) =
              (case (if nothrow_move_constructible T \<or> \<not> copy_constructible T
                     then transfer_by_move T (elems v) else transfer_by_copy T (elems v)) of
                 Inl old \<Rightarrow> Thrown ConstructionError (vec old 0)
               | Inr new \<Rightarrow> Done (vec (new @ [x]) (grown v - Suc (size' v)))))
       \<and> (size' v = Capacity v \<and> \<not> alloc_fails T (grown v) \<and> i \<le> size' v \<longrightarrow>
            Emplace T v (int i) (Constructs x) =
              (case (if nothrow_move_constructible T \<or> \<not> copy_constructible T
                     then transfer_by_move T (elems v) else transfer_by_copy T (elems v)) of
                 Inl old \<Rightarrow> Thrown ConstructionError (vec old 0)
               | Inr new \<Rightarrow> Done (vec (take i new @ x # drop i new) (grown v - Suc (size' v)))))"
proof -
  from assms obtain xs k where v: "v = vec xs k"
    by (rule vec_cases)
  have reserve: "Capacity v < n \<and> \<not> alloc_fails T n \<longrightarrow>
            Reserve T v n =
              (case (if nothrow_move_constructible T \<or> \<not> copy_constructible T
                     then transfer_by_move T (elems v) else transfer_by_copy T (elems v)) of
                 Inl old \<Rightarrow> Thrown ConstructionError (vec old (Capacity v - size' v))
               | Inr new \<Rightarrow> Done (vec new (n - size' v)))"
    by (simp add: v Reserve_vec transfer_by_move_def transfer_by_copy_def)
  have append: "size' v = Capacity v \<and> \<not> alloc_fails T (grown v) \<longrightarrow>
            EmplaceBack T v (Constructs x) =
              (case (if nothrow_move_constructible T \<or> \<not> copy_constructible T
                     then transfer_by_move T (elems v) else transfer_by_copy T (elems v)) of
                 Inl old \<Rightarrow> Thrown ConstructionError (vec old 0)
               | Inr new \<Rightarrow> Done (vec (new @ [x]) (grown v - Suc (size' v))))"
    by (simp add: v EmplaceBack_vec_full transfer_by_move_def transfer_by_copy_def grown_def)
  have insert: "size' v = Capacity v \<and> \<not> alloc_fails T (grown v) \<and> i \<le> size' v \<longrightarrow>
            Emplace T v (int i) (Constructs x) =
              (case (if nothrow_move_constructible T \<or> \<not> copy_constructible T
                     then transfer_by_move T (elems v) else transfer_by_copy T (elems v)) of
                 Inl old \<Rightarrow> Thrown ConstructionError (vec old 0)
               | Inr new \<Rightarrow> Done (vec (take i new @ x # drop i new) (grown v - Suc (size' v))))"
    by (simp add: v Emplace_vec_full_at transfer_by_move_def transfer_by_copy_def grown_def)
  from reserve append insert show ?thesis
    by blast
qed

theorem relocation_rule_witness:
  "vec_inv (vec [1, 2] 0) \<and> Capacity (vec [1, 2 :: nat] 0) < 4 \<and> \<not> alloc_fails move_only 4
     \<and> Reserve move_only (vec [1, 2] 0) 4 = Thrown ConstructionError (vec [0, 2] 0)
     \<and> Reserve int_like (vec [1, 2] 0) 4 = Done (vec [1, 2] 2)
     \<and> EmplaceBack int_like (vec [1, 2] 0) (Constructs 3) = Done (vec [1, 2, 3] 1)
     \<and> Emplace move_only (vec [1, 2] 0) 1 (Constructs 3) = Thrown ConstructionError (vec [0, 2] 0)
     \<and> Emplace int_like (vec [1, 2] 0) 1 (Constructs 3) = Done (vec [1, 3, 2] 1)"
  using relocation_rule [of "vec [1, 2] 0" 4 move_only 3 1]
    relocation_rule [of "vec [1, 2] 0" 4 int_like 3 1]
  by (simp add: move_only_def int_like_def transfer_by_move_def transfer_by_copy_def grown_def)

subsection \<open>C2: the strong guarantee of the growing operations\<close>

text \<open>
  C2, as stated, fails: for a move-only element type whose move constructor throws,
  \<^verbatim>\<open>Reserve(4)\<close> on \<open>[1, 2]\<close> ends with an exception and leaves \<open>[0, 2]\<close>, the first
  element moved from.
\<close>

theorem strong_guarantee_counterexample:
  "Reserve move_only (vec [1, 2] 0) 4 = Thrown ConstructionError (vec [0, 2] 0)
     \<and> elems (vec [0, 2 :: nat] 0) \<noteq> elems (vec [1, 2] 0)"
  by code_simp

text \<open>
  C2, amended. For a vector in good state whose element type is copy-constructible or
  nothrow-move-constructible (a nothrow move constructor not throwing on the elements),
  every growing operation fails exactly when the allocation, the construction of the new
  element or a copy of an old element fails, the failure reaches the caller, and the
  vector it leaves behind is the one before the call: same length, capacity and values.
\<close>

theorem strong_guarantee:
  assumes "vec_inv v"
    and "copy_constructible T \<or> nothrow_move_constructible T"
    and "nothrow_move_constructible T \<longrightarrow> (\<forall>x\<in>set (elems v). \<not> move_throws T x)"
  shows "(Capacity v < n \<longrightarrow>
            Reserve T v n =
              (if alloc_fails T n then Thrown AllocationError v
               else if \<not> nothrow_move_constructible T \<and> (\<exists>x\<in>set (elems v). copy_throws T x)
               then Thrown ConstructionError v
               else Done (vec (elems v) (n - size' v))))
       \<and> (size' v = Capacity v \<longrightarrow>
            EmplaceBack T v a =
              (if alloc_fails T (grown v) then Thrown AllocationError v
               else case a of
                 Throws \<Rightarrow> Thrown ConstructionError v
               | Constructs x \<Rightarrow>
                   if \<not> nothrow_move_constructible T \<and> (\<exists>x\<in>set (elems v). copy_throws T x)
                   then Thrown ConstructionError v
                   else Done (vec (elems v @ [x]) (grown v - Suc (size' v)))))
       \<and> (size' v = Capacity v \<and> i \<le> size' v \<longrightarrow>
            Emplace T v (int i) a =
              (if alloc_fails T (grown v) then Thrown AllocationError v
               else case a of
                 Throws \<Rightarrow> Thrown ConstructionError v
               | Constructs x \<Rightarrow>
                   if \<not> nothrow_move_constructible T \<and> (\<exists>x\<in>set (elems v). copy_throws T x)
                   then Thrown ConstructionError v
                   else Done (vec (take i (elems v) @ x # drop i (elems v)) (grown v - Suc (size' v)))))"
proof -
  from assms(1) obtain xs k where v: "v = vec xs k"
    by (rule vec_cases)
  from assms(2,3) have safe:
    "nothrow_move_constructible T \<or> \<not> copy_constructible T \<Longrightarrow>
       nothrow_move_constructible T \<and> (\<forall>x\<in>set xs. \<not> move_throws T x)"
    by (auto simp: v)
  have reserve: "Capacity v < n \<longrightarrow>
            Reserve T v n =
              (if alloc_fails T n then Thrown AllocationError v
               else if \<not> nothrow_move_constructible T \<and> (\<exists>x\<in>set (elems v). copy_throws T x)
               then Thrown ConstructionError v
               else Done (vec (elems v) (n - size' v)))"
    using safe by (auto simp: v Reserve_vec)
  have append: "size' v = Capacity v \<longrightarrow>
            EmplaceBack T v a =
              (if alloc_fails T (grown v) then Thrown AllocationError v
               else case a of
                 Throws \<Rightarrow> Thrown ConstructionError v
               | Constructs x \<Rightarrow>
                   if \<not> nothrow_move_constructible T \<and> (\<exists>x\<in>set (elems v). copy_throws T x)
                   then Thrown ConstructionError v
                   else Done (vec (elems v @ [x]) (grown v - Suc (size' v))))"
    using safe by (auto simp: v EmplaceBack_vec_full grown_def split: args.splits)
  have insert: "size' v = Capacity v \<and> i \<le> size' v \<longrightarrow>
            Emplace T v (int i) a =
              (if alloc_fails T (grown v) then Thrown AllocationError v
               else case a of
                 Throws \<Rightarrow> Thrown ConstructionError v
               | Constructs x \<Rightarrow>
                   if \<not> nothrow_move_constructible T \<and> (\<exists>x\<in>set (elems v). copy_throws T x)
                   then Thrown ConstructionError v
                   else Done (vec (take i (elems v) @ x # drop i (elems v)) (grown v - Suc (size' v))))"
    using safe by (auto simp: v Emplace_vec_full_at grown_def split: args.splits)
  from reserve append insert show ?thesis
    by blast
qed

theorem strong_guarantee_witness:
  "vec_inv (vec [1, 2 :: nat] 0)
     \<and> (copy_constructible fragile \<or> nothrow_move_constructible fragile)
     \<and> \<not> nothrow_move_constructible fragile
     \<and> Reserve fragile (vec [1, 2] 0) 4 = Thrown ConstructionError (vec [1, 2] 0)
     \<and> Reserve fragile (vec [1, 2] 0) 9 = Thrown AllocationError (vec [1, 2] 0)
     \<and> EmplaceBack fragile (vec [1, 2] 0) Throws = Thrown ConstructionError (vec [1, 2] 0)
     \<and> Emplace fragile (vec [1, 2] 0) 1 (Constructs 5) = Thrown ConstructionError (vec [1, 2] 0)"
  using strong_guarantee [of "vec [1, 2] 0" fragile 4 Throws 1]
    strong_guarantee [of "vec [1, 2] 0" fragile 9 "Constructs 5" 1]
  by (simp add: fragile_def grown_def)

subsection \<open>C3: the capacity of the new block\<close>

text \<open>
  C3, as stated, fails for \<^verbatim>\<open>Reserve\<close>: on a vector of capacity 4, \<^verbatim>\<open>Reserve(5)\<close>
  allocates 5 slots, not \<open>max 5 (2 * 4)\<close>.
\<close>

theorem growth_policy_counterexample:
  "Reserve int_like (vec [1, 2, 3, 4] 0) 5 = Done (vec [1, 2, 3, 4] 1)
     \<and> Capacity (vec [1, 2, 3, 4 :: nat] 1) \<noteq> max 5 (2 * Capacity (vec [1, 2, 3, 4 :: nat] 0))"
  by code_simp

text \<open>
  C3, amended. On a vector in good state, and for requests whose byte count fits
  \<^verbatim>\<open>size_t\<close>: \<^verbatim>\<open>Reserve(n)\<close> beyond the capacity allocates exactly \<open>n\<close> slots;
  \<^verbatim>\<open>Resize(n)\<close> beyond the capacity allocates the larger of \<open>n\<close> and twice the capacity,
  where twice the capacity does not wrap; an append or an insertion into a full vector
  allocates the larger of the length plus one and twice the capacity, which is 1 for
  capacity 0.
\<close>

theorem growth_policy:
  assumes "vec_inv v"
  shows "(Capacity v < n \<and> fits T n \<and> Reserve T v n = Done v' \<longrightarrow> Capacity v' = n)
       \<and> (Capacity v < n \<and> Capacity v * 2 < 2 ^ 64 \<and> fits T (max n (2 * Capacity v))
            \<and> Resize T v n = Done v' \<longrightarrow>
            Capacity v' = max n (2 * Capacity v))
       \<and> (size' v = Capacity v \<and> fits T (max (size' v + 1) (2 * Capacity v))
            \<and> EmplaceBack T v a = Done v' \<longrightarrow>
            Capacity v' = max (size' v + 1) (2 * Capacity v))
       \<and> (size' v = Capacity v \<and> fits T (max (size' v + 1) (2 * Capacity v))
            \<and> Emplace T v pos a = Done v' \<longrightarrow>
            Capacity v' = max (size' v + 1) (2 * Capacity v))"
proof -
  from assms obtain xs k where v: "v = vec xs k"
    by (rule vec_cases)
  have reserve: "Capacity v < n \<and> fits T n \<and> Reserve T v n = Done v' \<longrightarrow> Capacity v' = n"
    by (auto simp: v Reserve_vec split: if_splits)
  have resize: "Capacity v < n \<and> Capacity v * 2 < 2 ^ 64 \<and> fits T (max n (2 * Capacity v))
            \<and> Resize T v n = Done v' \<longrightarrow>
            Capacity v' = max n (2 * Capacity v)"
  proof (intro impI, elim conjE)
    assume big: "Capacity v < n" and twice: "Capacity v * 2 < 2 ^ 64"
      and ok: "Resize T v n = Done v'"
    define m where "m = n - length xs"
    define c where "c = max (length xs + m) (((length xs + k) * 2) mod 2 ^ 64)"
    from big have n: "n = length xs + m" and km: "length xs + k < length xs + m"
      by (simp_all add: v m_def)
    from twice have "((length xs + k) * 2) mod 2 ^ 64 = (length xs + k) * 2"
      by (simp only: v Capacity_vec mod_less)
    then have c: "c = max n (2 * Capacity v)"
      by (simp add: c_def n v)
    from km have le: "length xs + k < c" "length xs + m + (c - (length xs + m)) = c"
      by (simp_all add: c_def)
    from ok have "Capacity v' = c"
      unfolding v n
      by (subst (asm) Resize_vec_grow [OF km c_def])
        (use le in \<open>auto simp: Reserve_vec split: if_splits option.splits\<close>)
    with c show "Capacity v' = max n (2 * Capacity v)"
      by simp
  qed
  have append: "size' v = Capacity v \<and> fits T (max (size' v + 1) (2 * Capacity v))
            \<and> EmplaceBack T v a = Done v' \<longrightarrow>
            Capacity v' = max (size' v + 1) (2 * Capacity v)"
    by (auto simp: v EmplaceBack_vec_full split: if_splits args.splits)
  have insert: "size' v = Capacity v \<and> fits T (max (size' v + 1) (2 * Capacity v))
            \<and> Emplace T v pos a = Done v' \<longrightarrow>
            Capacity v' = max (size' v + 1) (2 * Capacity v)"
  proof (intro impI, elim conjE)
    assume full: "size' v = Capacity v" and ok: "Emplace T v pos a = Done v'"
    from ok have range: "0 \<le> pos" "pos \<le> int (length xs)"
      by (auto simp: Emplace_def v split: if_splits)
    then obtain i where i: "pos = int i" "i \<le> length xs"
      by (metis nonneg_int_cases of_nat_le_iff)
    from full have k: "k = 0" by (simp add: v)
    from ok show "Capacity v' = max (size' v + 1) (2 * Capacity v)"
      unfolding v k i
      by (subst (asm) Emplace_vec_full_at [OF i(2) refl])
        (auto split: if_splits args.splits)
  qed
  from reserve resize append insert show ?thesis
    by blast
qed

theorem growth_policy_witness:
  "vec_inv (vec [1, 2 :: nat] 0)
     \<and> Capacity (vec [1, 2 :: nat] 0) < 3 \<and> fits int_like 3
     \<and> Reserve int_like (vec [1, 2] 0) 3 = Done (vec [1, 2] 1)
     \<and> Capacity (vec [1, 2 :: nat] 1) = 3
     \<and> Capacity (vec [1, 2 :: nat] 0) * 2 < 2 ^ 64
     \<and> fits int_like (max 3 (2 * Capacity (vec [1, 2 :: nat] 0)))
     \<and> Resize int_like (vec [1, 2] 0) 3 = Done (vec [1, 2, 0] 1)
     \<and> Capacity (vec [1, 2, 0 :: nat] 1) = max 3 (2 * Capacity (vec [1, 2 :: nat] 0))
     \<and> size' (vec [1, 2 :: nat] 0) = Capacity (vec [1, 2 :: nat] 0)
     \<and> fits int_like (max (size' (vec [1, 2 :: nat] 0) + 1) (2 * Capacity (vec [1, 2 :: nat] 0)))
     \<and> EmplaceBack int_like (vec [1, 2] 0) (Constructs 7) = Done (vec [1, 2, 7] 1)
     \<and> Emplace int_like (vec [1, 2] 0) 0 (Constructs 7) = Done (vec [7, 1, 2] 1)
     \<and> Capacity (vec [1, 2, 7 :: nat] 1) = max (size' (vec [1, 2 :: nat] 0) + 1) (2 * Capacity (vec [1, 2 :: nat] 0))
     \<and> Capacity (vec [7, 1, 2 :: nat] 1) = max (size' (vec [1, 2 :: nat] 0) + 1) (2 * Capacity (vec [1, 2 :: nat] 0))"
proof -
  have inv: "vec_inv (vec [1, 2 :: nat] 0)"
    by simp
  have big: "Capacity (vec [1, 2 :: nat] 0) < 3" and twice: "Capacity (vec [1, 2 :: nat] 0) * 2 < 2 ^ 64"
    and full: "size' (vec [1, 2 :: nat] 0) = Capacity (vec [1, 2 :: nat] 0)"
    by simp_all
  have room: "fits int_like 3" "fits int_like (max 3 (2 * Capacity (vec [1, 2 :: nat] 0)))"
    "fits int_like (max (size' (vec [1, 2 :: nat] 0) + 1) (2 * Capacity (vec [1, 2 :: nat] 0)))"
    by (simp_all add: fits_def int_like_def)
  have reserve: "Reserve int_like (vec [1, 2] 0) 3 = Done (vec [1, 2] 1)"
    by code_simp
  have resize: "Resize int_like (vec [1, 2] 0) 3 = Done (vec [1, 2, 0] 1)"
  proof (rule Resize_vec_grow_Done [where c = 4])
    show "Reserve int_like (vec [1, 2] 0) 4 = Done (vec [1, 2] 2)"
      by code_simp
    show "value_init int_like = Some 0"
      by (simp add: int_like_def)
    show "[1, 2, 0] = [1, 2] @ replicate (3 - length [1, 2 :: nat]) (0 :: nat)"
      by (simp add: eval_nat_numeral)
  qed simp_all
  have append: "EmplaceBack int_like (vec [1, 2] 0) (Constructs 7) = Done (vec [1, 2, 7] 1)"
    by code_simp
  have insert: "Emplace int_like (vec [1, 2] 0) 0 (Constructs 7) = Done (vec [7, 1, 2] 1)"
    by code_simp
  note t = growth_policy [OF inv, where n = 3 and T = int_like and a = "Constructs 7" and pos = 0]
  from t [of "vec [1, 2] 1"] big room reserve have r1: "Capacity (vec [1, 2 :: nat] 1) = 3"
    by blast
  from t [of "vec [1, 2, 0] 1"] big twice room resize
  have r2: "Capacity (vec [1, 2, 0 :: nat] 1) = max 3 (2 * Capacity (vec [1, 2 :: nat] 0))"
    by blast
  from t [of "vec [1, 2, 7] 1"] full room append
  have r3: "Capacity (vec [1, 2, 7 :: nat] 1)
              = max (size' (vec [1, 2 :: nat] 0) + 1) (2 * Capacity (vec [1, 2 :: nat] 0))"
    by blast
  from t [of "vec [7, 1, 2] 1"] full room insert
  have r4: "Capacity (vec [7, 1, 2 :: nat] 1)
              = max (size' (vec [1, 2 :: nat] 0) + 1) (2 * Capacity (vec [1, 2 :: nat] 0))"
    by blast
  show ?thesis
    by (intro conjI inv big twice full room reserve resize append insert r1 r2 r3 r4)
qed

subsection \<open>C4: inserting at the end and appending\<close>

text \<open>
  C4 is what the code was meant to do, and it does so when the insertion reallocates. With
  spare capacity it does not: \<^verbatim>\<open>EmplaceWithoutReallocate\<close> move-constructs the last
  element into the new last slot and then hands \<^verbatim>\<open>std::move_backward\<close> a range that still
  contains that element, now moved from. On strings \<open>[a, b]\<close> with two spare slots,
  inserting \<open>c\<close> at position 2 leaves \<open>[a, empty, c]\<close> where appending gives
  \<open>[a, b, c]\<close>; inserting \<open>x\<close> at position 0 of \<open>[a, b, c]\<close> with one spare slot gives
  \<open>[x, a, b, empty]\<close>.
\<close>

theorem insert_without_reallocation_loses_last:
  "Emplace string_like (vec [''a'', ''b''] 2) 2 (Constructs ''c'') = Done (vec [''a'', [], ''c''] 1)
     \<and> EmplaceBack string_like (vec [''a'', ''b''] 2) (Constructs ''c'')
          = Done (vec [''a'', ''b'', ''c''] 1)
     \<and> Emplace string_like (vec [''a'', ''b'', ''c''] 1) 0 (Constructs ''x'')
          = Done (vec [''x'', ''a'', ''b'', []] 0)"
  by code_simp

text \<open>
  In general: inserting into a vector \<open>ys @ [y]\<close> with spare capacity inserts into
  \<open>ys @ [moved_from T y]\<close>. The result is the intended one exactly for the element types
  whose move leaves the last element as it was.
\<close>

lemma insert_without_reallocation:
  assumes "i \<le> Suc (length ys)" and "\<not> move_throws T y"
    and "\<forall>z\<in>set (drop i (ys @ [moved_from T y])). \<not> move_assign_throws T z"
  shows "Emplace T (vec (ys @ [y]) (Suc k)) (int i) (Constructs x)
           = Done (vec (take i (ys @ [moved_from T y]) @ x # drop i (ys @ [moved_from T y])) k)"
proof -
  define sh where "sh = ys @ [moved_from T y]"
  from assms(1) have len: "length (take i sh) = i"
    by (simp add: sh_def)
  have split: "ys @ [moved_from T y] = take i sh @ drop i sh"
    by (simp only: append_take_drop_id sh_def)
  from Emplace_vec_spare [OF split, where k = k and a = "Constructs x", unfolded len] assms(2,3)
  show ?thesis
    by (simp add: sh_def [symmetric])
qed

subsection \<open>C5: the length never exceeds the capacity\<close>

text \<open>
  C5. \<open>vec_inv\<close> says that the length is at most the capacity, that the slots below the
  length hold constructed elements and that the others are raw. The default constructor
  establishes it, and every operation of the public interface that returns keeps it:
  the constructors, append, insert, erase, pop-last, reserve, resize, both assignments
  and swap. So after each of them the length is at most the capacity.
\<close>

theorem invariant_preserved:
  assumes "vec_inv v" and "vec_inv (s this)" and "vec_inv (s rhs)"
  shows "vec_inv Vector_default
       \<and> (Vector_sized T n = Done v' \<longrightarrow> vec_inv v')
       \<and> (Vector_copy T v = Done v' \<longrightarrow> vec_inv v')
       \<and> vec_inv (fst (Vector_move v)) \<and> vec_inv (snd (Vector_move v))
       \<and> (EmplaceBack T v a = Done v' \<longrightarrow> vec_inv v')
       \<and> (PushBack T v a = Done v' \<longrightarrow> vec_inv v')
       \<and> (Emplace T v pos a = Done v' \<longrightarrow> vec_inv v')
       \<and> (Insert T v pos a = Done v' \<longrightarrow> vec_inv v')
       \<and> (Erase T v pos = Done v' \<longrightarrow> vec_inv v')
       \<and> (PopBack v = Done v' \<longrightarrow> vec_inv v')
       \<and> (Reserve T v n = Done v' \<longrightarrow> vec_inv v')
       \<and> (Resize T v n = Done v' \<longrightarrow> vec_inv v')
       \<and> (assign_copy T s this rhs = Done s' \<longrightarrow> vec_inv (s' this) \<and> vec_inv (s' rhs))
       \<and> vec_inv (assign_move s this rhs this) \<and> vec_inv (assign_move s this rhs rhs)
       \<and> vec_inv (Swap_at s this rhs this) \<and> vec_inv (Swap_at s this rhs rhs)
       \<and> (vec_inv v' \<longrightarrow> size' v' \<le> Capacity v')"
proof -
  note v = assms(1)
  have construct: "vec_inv Vector_default" "Vector_sized T n = Done v' \<longrightarrow> vec_inv v'"
    "Vector_copy T v = Done v' \<longrightarrow> vec_inv v'"
    "vec_inv (fst (Vector_move v))" "vec_inv (snd (Vector_move v))"
    using v by (auto simp: Vector_default_inv Vector_move_def intro: Vector_sized_inv Vector_copy_inv)
  have grow: "EmplaceBack T v a = Done v' \<longrightarrow> vec_inv v'" "PushBack T v a = Done v' \<longrightarrow> vec_inv v'"
    "Emplace T v pos a = Done v' \<longrightarrow> vec_inv v'" "Insert T v pos a = Done v' \<longrightarrow> vec_inv v'"
    "Reserve T v n = Done v' \<longrightarrow> vec_inv v'" "Resize T v n = Done v' \<longrightarrow> vec_inv v'"
    using v
    by (auto simp: PushBack_def Insert_def intro: EmplaceBack_inv Emplace_inv Reserve_inv Resize_inv)
  have shrink: "Erase T v pos = Done v' \<longrightarrow> vec_inv v'" "PopBack v = Done v' \<longrightarrow> vec_inv v'"
    using v by (auto intro: Erase_inv PopBack_inv)
  have assign: "assign_copy T s this rhs = Done s' \<longrightarrow> vec_inv (s' this) \<and> vec_inv (s' rhs)"
    using assms(2,3)
    by (auto simp: assign_copy_def split: if_splits outcome.splits intro: assign_distinct_inv)
  have exchange: "vec_inv (assign_move s this rhs this)" "vec_inv (assign_move s this rhs rhs)"
    "vec_inv (Swap_at s this rhs this)" "vec_inv (Swap_at s this rhs rhs)"
    using assms(2,3) by (auto simp: assign_move_def Swap_at_def Swap_eq)
  have bound: "vec_inv v' \<longrightarrow> size' v' \<le> Capacity v'"
    by (simp add: vec_inv_def)
  from construct grow shrink assign exchange bound show ?thesis
    by blast
qed

theorem invariant_preserved_witness:
  "vec_inv (vec [1, 2 :: nat] 1) \<and> vec_inv (two_vectors 0) \<and> vec_inv (two_vectors 1)
     \<and> EmplaceBack int_like (vec [1, 2] 1) (Constructs 3) = Done (vec [1, 2, 3] 0)
     \<and> vec_inv (vec [1, 2, 3 :: nat] 0) \<and> size' (vec [1, 2, 3 :: nat] 0) \<le> Capacity (vec [1, 2, 3 :: nat] 0)
     \<and> Emplace int_like (vec [1, 2] 1) 0 (Constructs 3) = Done (vec [3, 1, 2] 0)
     \<and> vec_inv (vec [3, 1, 2 :: nat] 0)
     \<and> Erase int_like (vec [1, 2] 1) 0 = Done (vec [2] 2) \<and> vec_inv (vec [2 :: nat] 2)
     \<and> Resize int_like (vec [1, 2] 1) 7 = Done (vec [1, 2, 0, 0, 0, 0, 0] 0)
     \<and> vec_inv (vec [1, 2, 0, 0, 0, 0, 0 :: nat] 0)
     \<and> assign_copy int_like two_vectors 0 1 = Done (two_vectors(0 := vec [5] 2))
     \<and> vec_inv ((two_vectors(0 := vec [5] 2)) 0)"
proof -
  have inv: "vec_inv (vec [1, 2 :: nat] 1)" "vec_inv (two_vectors 0)" "vec_inv (two_vectors 1)"
    by (simp_all add: two_vectors_def)
  have append: "EmplaceBack int_like (vec [1, 2] 1) (Constructs 3) = Done (vec [1, 2, 3] 0)"
    by code_simp
  have insert: "Emplace int_like (vec [1, 2] 1) 0 (Constructs 3) = Done (vec [3, 1, 2] 0)"
    by code_simp
  have erase: "Erase int_like (vec [1, 2] 1) 0 = Done (vec [2] 2)"
    by code_simp
  have resize: "Resize int_like (vec [1, 2] 1) 7 = Done (vec [1, 2, 0, 0, 0, 0, 0] 0)"
  proof (rule Resize_vec_grow_Done [where c = 7])
    show "Reserve int_like (vec [1, 2] 1) 7 = Done (vec [1, 2] 5)"
      by code_simp
    show "value_init int_like = Some 0"
      by (simp add: int_like_def)
    show "[1, 2, 0, 0, 0, 0, 0] = [1, 2] @ replicate (7 - length [1, 2 :: nat]) (0 :: nat)"
      by (simp add: eval_nat_numeral)
  qed simp_all
  have "assign_distinct int_like (vec [1, 2] 1) (vec [5] 0) = Done (vec [5] 2)"
    by code_simp
  then have assign: "assign_copy int_like two_vectors 0 1 = Done (two_vectors(0 := vec [5] 2))"
    by (simp add: assign_copy_def two_vectors_def)
  note t = invariant_preserved [OF inv, where T = int_like and a = "Constructs 3" and pos = 0 and n = 7
      and s' = "two_vectors(0 := vec [5] 2)"]
  from t [of "vec [1, 2, 3] 0"] append
  have r1: "vec_inv (vec [1, 2, 3 :: nat] 0)"
    "size' (vec [1, 2, 3 :: nat] 0) \<le> Capacity (vec [1, 2, 3 :: nat] 0)"
    by blast+
  from t [of "vec [3, 1, 2] 0"] insert have r2: "vec_inv (vec [3, 1, 2 :: nat] 0)"
    by blast
  from t [of "vec [2] 2"] erase have r3: "vec_inv (vec [2 :: nat] 2)"
    by blast
  from t [of "vec [1, 2, 0, 0, 0, 0, 0] 0"] resize
  have r4: "vec_inv (vec [1, 2, 0, 0, 0, 0, 0 :: nat] 0)"
    by blast
  from t [of "vec [2] 2"] assign have r5: "vec_inv ((two_vectors(0 := vec [5] 2)) 0)"
    by blast
  show ?thesis
    by (intro conjI inv append insert erase resize assign r1 r2 r3 r4 r5)
qed

subsection \<open>C6: erase and pop-last\<close>

text \<open>
  C6, as stated, fails: \<^verbatim>\<open>Erase\<close> is \<^verbatim>\<open>noexcept\<close>, so when the move assignment of an
  element behind the erased one throws, the program is terminated and no vector comes
  back. Erasing position 0 of \<open>[1, 2]\<close>, for an element type whose move assignment throws
  on 2, ends so.
\<close>

theorem erase_counterexample:
  "Erase fragile (vec [1, 2] 0) 0 = Fatal Terminated"
  by code_simp

text \<open>
  C6, amended. On a vector in good state, erasing at a position \<open>i\<close> below the length
  terminates the program when the move assignment of an element behind \<open>i\<close> throws; in
  every other case it returns the vector without the element at \<open>i\<close>, the others in
  their order and one element shorter, with one more raw slot. Erasing at the last
  position is pop-last; pop-last on a vector that is not empty destroys the last element
  and decrements the length, and on an empty vector it changes nothing.
\<close>

theorem erase_and_pop:
  assumes "vec_inv v" and "i < size' v"
  shows "Erase T v (int i)
           = (if \<exists>y\<in>set (drop (Suc i) (elems v)). move_assign_throws T y then Fatal Terminated
              else Done (vec (take i (elems v) @ drop (Suc i) (elems v))
                          (Suc (Capacity v - size' v))))
       \<and> length (take i (elems v) @ drop (Suc i) (elems v)) = size' v - 1
       \<and> (i = size' v - 1 \<longrightarrow> Erase T v (int i) = PopBack v)
       \<and> PopBack v = Done (vec (butlast (elems v)) (Suc (Capacity v - size' v)))
       \<and> (size' w = 0 \<longrightarrow> PopBack w = Done w)"
proof -
  from assms(1) obtain xs k where v: "v = vec xs k"
    by (rule vec_cases)
  from assms(2) have i: "i < length xs"
    by (simp add: v)
  then have xs: "xs = take i xs @ xs ! i # drop (Suc i) xs"
    by (rule id_take_nth_drop)
  from i have len: "length (take i xs) = i"
    by simp
  have "Erase T (vec (take i xs @ xs ! i # drop (Suc i) xs) k) (int (length (take i xs)))
          = (if \<exists>y\<in>set (drop (Suc i) xs). move_assign_throws T y then Fatal Terminated
             else Done (vec (take i xs @ drop (Suc i) xs) (Suc k)))"
    by (rule Erase_vec)
  then have erase: "Erase T (vec xs k) (int i)
          = (if \<exists>y\<in>set (drop (Suc i) xs). move_assign_throws T y then Fatal Terminated
             else Done (vec (take i xs @ drop (Suc i) xs) (Suc k)))"
    unfolding len xs [symmetric] .
  from i have pop: "PopBack (vec xs k) = Done (vec (butlast xs) (Suc k))"
    by (auto simp: PopBack_vec)
  have empty: "size' w = 0 \<longrightarrow> PopBack w = Done w"
    by (simp add: PopBack_def)
  have same: "i = size' v - 1 \<longrightarrow> Erase T v (int i) = PopBack v"
  proof
    assume "i = size' v - 1"
    with i have at_end: "Suc i = length xs"
      by (simp add: v)
    then have front: "take i xs = butlast xs"
      by (metis butlast_conv_take diff_Suc_1)
    from at_end have "length xs \<le> Suc i"
      by simp
    with erase have "Erase T (vec xs k) (int i) = Done (vec (take i xs) (Suc k))"
      by simp
    with front pop show "Erase T v (int i) = PopBack v"
      by (simp only: v)
  qed
  from i have "length (take i xs @ drop (Suc i) xs) = length xs - 1"
    by simp
  with erase pop same empty show ?thesis
    by (simp add: v)
qed

theorem erase_and_pop_witness:
  "vec_inv (vec [1, 2, 3 :: nat] 1) \<and> 0 < size' (vec [1, 2, 3 :: nat] 1)
     \<and> Erase int_like (vec [1, 2, 3] 1) (int 0)
          = Done (vec (take 0 (elems (vec [1, 2, 3] 1)) @ drop (Suc 0) (elems (vec [1, 2, 3] 1)))
                   (Suc (Capacity (vec [1, 2, 3 :: nat] 1) - size' (vec [1, 2, 3 :: nat] 1))))
     \<and> Erase int_like (vec [1, 2, 3] 1) (int 0) = Done (vec [2, 3] 2)
     \<and> 2 < size' (vec [1, 2, 3 :: nat] 1)
     \<and> Erase int_like (vec [1, 2, 3] 1) (int 2) = PopBack (vec [1, 2, 3] 1)
     \<and> PopBack (vec [1, 2, 3 :: nat] 1) = Done (vec [1, 2] 2)
     \<and> vec_inv (vec [1, 2, 3 :: nat] 0)
     \<and> Erase fragile (vec [1, 2, 3] 0) (int 0) = Fatal Terminated"
proof -
  have inv: "vec_inv (vec [1, 2, 3 :: nat] 1)" and inv': "vec_inv (vec [1, 2, 3 :: nat] 0)"
    by simp_all
  have first: "0 < size' (vec [1, 2, 3 :: nat] 1)" and last: "2 < size' (vec [1, 2, 3 :: nat] 1)"
    and first': "0 < size' (vec [1, 2, 3 :: nat] 0)"
    by simp_all
  have at_end: "2 = size' (vec [1, 2, 3 :: nat] 1) - 1"
    by simp
  have quiet: "\<not> (\<exists>y\<in>set (drop (Suc 0) (elems (vec [1, 2, 3 :: nat] 1))). move_assign_throws int_like y)"
    by (simp add: int_like_def)
  have loud: "\<exists>y\<in>set (drop (Suc 0) (elems (vec [1, 2, 3 :: nat] 0))). move_assign_throws fragile y"
    by (simp add: fragile_def)
  have pop: "PopBack (vec [1, 2, 3 :: nat] 1) = Done (vec [1, 2] 2)"
    by code_simp
  have shifted: "Erase int_like (vec [1, 2, 3] 1) (int 0) = Done (vec [2, 3] 2)"
    by code_simp
  from erase_and_pop [OF inv first, of int_like Vector_default, THEN conjunct1] quiet
  have r1: "Erase int_like (vec [1, 2, 3] 1) (int 0)
          = Done (vec (take 0 (elems (vec [1, 2, 3] 1)) @ drop (Suc 0) (elems (vec [1, 2, 3] 1)))
                   (Suc (Capacity (vec [1, 2, 3 :: nat] 1) - size' (vec [1, 2, 3 :: nat] 1))))"
    by (simp only: if_False)
  from erase_and_pop [OF inv last, of int_like Vector_default] at_end
  have r2: "Erase int_like (vec [1, 2, 3] 1) (int 2) = PopBack (vec [1, 2, 3] 1)"
    by blast
  from erase_and_pop [OF inv' first', of fragile Vector_default, THEN conjunct1] loud
  have r3: "Erase fragile (vec [1, 2, 3] 0) (int 0) = Fatal Terminated"
    by (simp only: if_True)
  show ?thesis
    by (intro conjI inv first r1 shifted last r2 pop inv' r3)
qed

subsection \<open>C7: resize\<close>



subsection \<open>C8: moving a vector\<close>

text \<open>
  C8. The move constructor gives the new vector the block and the length of the other
  one, so its elements, and leaves the other one with length 0 and capacity 0. After a
  move assignment the destination is the vector the source was, with its elements.
\<close>

theorem move_transfers:
  "fst (Vector_move other) = other
     \<and> elems (fst (Vector_move other)) = elems other
     \<and> size' (snd (Vector_move other)) = 0 \<and> Capacity (snd (Vector_move other)) = 0
     \<and> assign_move s this rhs this = s rhs
     \<and> elems (assign_move s this rhs this) = elems (s rhs)"
  by (simp add: Vector_move_def Vector_default_def Swap_def Capacity_def assign_move_def Swap_at_def
      elems_def)

subsection \<open>C9: positions and indices out of range\<close>

text \<open>
  C9, as stated, fails for \<^verbatim>\<open>Erase\<close>: a position past the end, or before the beginning,
  is no assertion failure; the vector is returned as it was.
\<close>

theorem precondition_counterexample:
  "Erase int_like (vec [1, 2] 0) 5 = Done (vec [1, 2] 0)
     \<and> Erase int_like (vec [1, 2] 0) (- 1) = Done (vec [1, 2] 0)"
  by code_simp

text \<open>
  C9, amended. An index that is not below the length fails the assertion of
  \<^verbatim>\<open>operator[]\<close>, and a position outside \<^verbatim>\<open>[begin(), end()]\<close> fails the assertion of
  \<^verbatim>\<open>Emplace\<close>; \<^verbatim>\<open>Erase\<close> at such a position does nothing and returns.
\<close>

theorem precondition_checks:
  "(\<not> index < size' v \<longrightarrow> At v index = Fatal AssertionFailed)
     \<and> (pos < 0 \<or> int (size' v) < pos \<longrightarrow>
          Emplace T v pos a = Fatal AssertionFailed \<and> Erase T v pos = Done v)"
  by (auto simp: At_def Emplace_def Erase_def)

theorem precondition_checks_witness:
  "\<not> 2 < size' (vec [1, 2 :: nat] 0) \<and> At (vec [1, 2 :: nat] 0) 2 = Fatal AssertionFailed
     \<and> int (size' (vec [1, 2 :: nat] 0)) < 3
     \<and> Emplace int_like (vec [1, 2] 0) 3 (Constructs 7) = Fatal AssertionFailed
     \<and> Erase int_like (vec [1, 2] 0) 3 = Done (vec [1, 2] 0)"
proof -
  have index: "\<not> 2 < size' (vec [1, 2 :: nat] 0)" and pos: "int (size' (vec [1, 2 :: nat] 0)) < 3"
    by simp_all
  from precondition_checks [of 2 "vec [1, 2] 0" 3 int_like "Constructs 7"] index pos show ?thesis
    by blast
qed

subsection \<open>C10: assigning a vector to itself\<close>

text \<open>
  C10. Copy assignment and move assignment of a vector to itself leave the store, and so
  the vector's length, capacity and elements, as they were.
\<close>

theorem self_assignment:
  "assign_copy T s this this = Done s \<and> assign_move s this this = s"
  by (simp add: assign_copy_def assign_move_def)

end
